theory Spec2Isabelle
  imports Main
begin

section \<open>Data of the Spotify terminal client\<close>

text \<open>
  The program is one class, \<open>SpotifyTUI\<close> (src/src/spotify_tui.py), driven by a
  cooperative event loop. Its handlers mutate the attributes of the one application
  object, update three widgets, start tasks on the loop and call the remote Web API
  through the global client \<open>sp\<close>. The model keeps all of that explicit: the
  attributes and widget contents are a record, the tasks of the loop are a list in that
  record, the remote client is a parameter, every remote call is appended to a log, and
  a Python exception is the left summand of a result.
\<close>

text \<open>
  Exceptions. \<open>SpotifyException\<close> carries \<open>http_status\<close> and the text
  \<open>str(e)\<close>; \<open>IndexError\<close> is what subscripting a list out of range raises;
  \<open>MarkupError\<close> is what a widget raises when the text given to \<open>update\<close> is
  not well-formed markup; \<open>OtherException\<close> stands for every other subclass of
  \<open>Exception\<close> a call can raise (a connection error, a timeout, an OAuth error), with
  its text.
\<close>

datatype py_exception =
    SpotifyException int string
  | IndexError
  | MarkupError
  | OtherException string

text \<open>A track object of the Web API, with the three keys the program reads.\<close>

record artist =
  artist_name :: string

record track =
  name :: string
  artists :: "artist list"
  uri :: string

text \<open>
  The object \<open>sp.current_playback()\<close> returns (\<open>None\<close> when nothing is playing):
  the keys \<open>is_playing\<close> and \<open>item\<close>, the latter null or a track.
\<close>

record playback =
  pb_is_playing :: bool
  pb_item :: "track option"

text \<open>
  Where a remote call runs: in a coroutine of the event loop (a direct call
  \<open>sp.f(...)\<close>), or in the worker thread of \<open>self.executor\<close>
  (\<open>loop.run_in_executor(self.executor, ...)\<close>).
\<close>

datatype ctx = EventLoop | Executor

datatype call =
    CurrentPlayback
  | PausePlayback
  | StartPlayback "string list option"
  | NextTrack
  | PreviousTrack
  | Search string

text \<open>
  The global client \<open>sp\<close>. Each operation answers with a value or raises; the
  answer may depend on how many remote calls were made before it (the \<open>nat\<close>), so
  that two reads of the playback state can differ.
\<close>

record remote =
  current_playback :: "nat \<Rightarrow> py_exception + playback option"
  pause_playback :: "nat \<Rightarrow> py_exception + unit"
  start_playback :: "nat \<Rightarrow> string list option \<Rightarrow> py_exception + unit"
  next_track :: "nat \<Rightarrow> py_exception + unit"
  previous_track :: "nat \<Rightarrow> py_exception + unit"
  search :: "nat \<Rightarrow> string \<Rightarrow> py_exception + track list"

text \<open>
  Tasks of the event loop. A task runs one of the two coroutines the program starts with
  \<open>asyncio.create_task\<close>; its stage is the \<open>await\<close> it is suspended at.
  \<open>delayed_search\<close> awaits \<open>asyncio.sleep(0.2)\<close> and then the executor;
  \<open>handle_playback\<close> awaits \<open>asyncio.sleep(0.1)\<close> on the skip commands.
  \<open>Finished\<close> is a task that returned or raised, \<open>Cancelled\<close> one that
  \<open>cancel()\<close> ended; \<open>done()\<close> holds of both. \<open>future_of\<close> is the future
  a search task awaits: what the call in the executor returned or raised.
\<close>

datatype coro = DelayedSearch string | HandlePlayback string

datatype stage = Scheduled | Sleeping | InExecutor | Finished | Cancelled

record task =
  coro_of :: coro
  stage_of :: stage
  future_of :: "py_exception + track list"

text \<open>
  The application object: the attributes \<open>on_mount\<close> creates, the contents of the
  widgets \<open>#results\<close> and \<open>#now-playing\<close>, whether \<open>#search-input\<close> has the
  focus, the tasks of the loop, and the log of remote calls. \<open>search_task\<close> is an
  index into \<open>tasks\<close>; \<open>is_playing\<close> is \<open>None\<close> where Python holds
  \<open>None\<close>.
\<close>

record app =
  query :: string
  track_uri :: "string option"
  selected_index :: int
  results :: "track list"
  search_task :: "nat option"
  is_playing :: "bool option"
  results_box :: string
  now_playing :: string
  has_focus :: bool
  tasks :: "task list"
  calls :: "(ctx \<times> call) list"

section \<open>Statements with state and exceptions\<close>

text \<open>
  A statement takes the application object and returns it updated, with a value or the
  exception it raised. An exception keeps the updates made before it.
\<close>

type_synonym 'a act = "app \<Rightarrow> (py_exception + 'a) \<times> app"

definition ret :: "'a \<Rightarrow> 'a act" where
  "ret x = (\<lambda>s. (Inr x, s))"

definition raise :: "py_exception \<Rightarrow> 'a act" where
  "raise e = (\<lambda>s. (Inl e, s))"

definition bnd :: "'a act \<Rightarrow> ('a \<Rightarrow> 'b act) \<Rightarrow> 'b act" where
  "bnd m f = (\<lambda>s. case m s of (Inl e, s') \<Rightarrow> (Inl e, s') | (Inr x, s') \<Rightarrow> f x s')"

definition seq :: "unit act \<Rightarrow> 'a act \<Rightarrow> 'a act" where
  "seq m n = bnd m (\<lambda>_. n)"

definition try_except :: "'a act \<Rightarrow> (py_exception \<Rightarrow> 'a act) \<Rightarrow> 'a act" where
  "try_except m h = (\<lambda>s. case m s of (Inl e, s') \<Rightarrow> h e s' | (Inr x, s') \<Rightarrow> (Inr x, s'))"

definition assign :: "(app \<Rightarrow> app) \<Rightarrow> unit act" where
  "assign f = (\<lambda>s. (Inr (), f s))"

definition lift :: "py_exception + 'a \<Rightarrow> 'a act" where
  "lift r = (\<lambda>s. (r, s))"

definition remote_call :: "ctx \<Rightarrow> call \<Rightarrow> (nat \<Rightarrow> py_exception + 'a) \<Rightarrow> 'a act" where
  "remote_call c k answer =
     (\<lambda>s. (answer (length (calls s)), s\<lparr>calls := calls s @ [(c, k)]\<rparr>))"

definition create_task :: "coro \<Rightarrow> nat act" where
  "create_task c =
     (\<lambda>s. (Inr (length (tasks s)),
            s\<lparr>tasks := tasks s @ [\<lparr>coro_of = c, stage_of = Scheduled, future_of = Inr []\<rparr>]\<rparr>))"

section \<open>Widgets\<close>

text \<open>
  \<open>update\<close> of a \<open>Static\<close> or \<open>Label\<close> widget reads its text as markup. A
  text without an opening bracket is plain and is always taken. Whether a text with a
  bracket is well-formed is decided by the parser of the framework, which is not part
  of the program: it is the parameter \<open>mk\<close> of everything that updates a widget.
  A text that is not taken raises \<open>MarkupError\<close> and leaves the widget as it was.
\<close>

type_synonym markup = "string \<Rightarrow> bool"

definition accepted :: "markup \<Rightarrow> string \<Rightarrow> bool" where
  "accepted mk text = (CHR ''['' \<notin> set text \<or> mk text)"

text \<open>\<open>results_box.update(text)\<close> and \<open>status.update(text)\<close>.\<close>

definition update_results :: "markup \<Rightarrow> string \<Rightarrow> unit act" where
  "update_results mk text =
     (if accepted mk text then assign (\<lambda>s. s\<lparr>results_box := text\<rparr>) else raise MarkupError)"

definition update_status :: "markup \<Rightarrow> string \<Rightarrow> unit act" where
  "update_status mk text =
     (if accepted mk text then assign (\<lambda>s. s\<lparr>now_playing := text\<rparr>) else raise MarkupError)"

section \<open>Rendering the result list\<close>

text \<open>
  \<open>xs[i]\<close> of Python: a negative index counts from the end, an index out of range
  raises \<open>IndexError\<close>.
\<close>

definition py_index :: "'a list \<Rightarrow> int \<Rightarrow> py_exception + 'a" where
  "py_index xs i =
     (if 0 \<le> i \<and> i < int (length xs) then Inr (xs ! nat i)
      else if - int (length xs) \<le> i \<and> i < 0 then Inr (xs ! nat (int (length xs) + i))
      else Inl IndexError)"

text \<open>
  One row: \<open>f"{'>' if i == self.selected_index else ' '} {item['name']} by
  {item['artists'][0]['name']}"\<close>. A track with no artist raises at \<open>[0]\<close>.
\<close>

definition render_row :: "int \<Rightarrow> nat \<Rightarrow> track \<Rightarrow> py_exception + string" where
  "render_row sel i item =
     (case py_index (artists item) 0 of
        Inl e \<Rightarrow> Inl e
      | Inr a \<Rightarrow>
          Inr ((if int i = sel then ''>'' else '' '') @ '' '' @ name item @ '' by ''
               @ artist_name a))"

text \<open>The generator over \<open>enumerate(results)\<close>: rows in order, the first raise ends it.\<close>

fun render_rows :: "int \<Rightarrow> nat \<Rightarrow> track list \<Rightarrow> py_exception + string list" where
  "render_rows sel i [] = Inr []"
| "render_rows sel i (item # rest) =
     (case render_row sel i item of
        Inl e \<Rightarrow> Inl e
      | Inr row \<Rightarrow>
          (case render_rows sel (Suc i) rest of
             Inl e \<Rightarrow> Inl e
           | Inr rows \<Rightarrow> Inr (row # rows)))"

fun join :: "string \<Rightarrow> string list \<Rightarrow> string" where
  "join sep [] = []"
| "join sep [x] = x"
| "join sep (x # y # ys) = x @ sep @ join sep (y # ys)"

definition render_results :: "int \<Rightarrow> track list \<Rightarrow> py_exception + string" where
  "render_results sel xs =
     (case render_rows sel 0 xs of
        Inl e \<Rightarrow> Inl e
      | Inr rows \<Rightarrow> Inr (join [CHR 0x0A] rows))"

section \<open>The key handler\<close>

text \<open>
  \<open>on_key\<close>, lines 223-260. With the search input out of focus the keys space, n and
  p start a playback task and every other key is ignored. With the input in focus and a
  non-empty result list, down and up move the selection and redraw the list, and enter
  plays the selected track with a direct call of \<open>sp.start_playback\<close>. The
  selection is assigned before the redraw, which can raise; so can the update of the
  status after the track was started, and only a \<open>SpotifyException\<close> is caught.
\<close>

definition on_key :: "markup \<Rightarrow> remote \<Rightarrow> string \<Rightarrow> unit act" where
  "on_key mk sp key = (\<lambda>s.
     if \<not> has_focus s then
       (if key = ''space'' then bnd (create_task (HandlePlayback ''play_pause'')) (\<lambda>_. ret ())
        else if key = ''n'' then bnd (create_task (HandlePlayback ''next'')) (\<lambda>_. ret ())
        else if key = ''p'' then bnd (create_task (HandlePlayback ''previous'')) (\<lambda>_. ret ())
        else ret ()) s
     else if has_focus s \<and> results s \<noteq> [] then
       (if key = ''down'' then
          seq (assign (\<lambda>s. s\<lparr>selected_index :=
                 min (selected_index s + 1) (int (length (results s)) - 1)\<rparr>))
            (bnd (\<lambda>s. lift (render_results (selected_index s) (results s)) s)
               (update_results mk))
        else if key = ''up'' then
          seq (assign (\<lambda>s. s\<lparr>selected_index := max (selected_index s - 1) 0\<rparr>))
            (bnd (\<lambda>s. lift (render_results (selected_index s) (results s)) s)
               (update_results mk))
        else if key = ''enter'' then
          bnd (\<lambda>s. lift (py_index (results s) (selected_index s)) s) (\<lambda>item.
          seq (assign (\<lambda>s. s\<lparr>track_uri := Some (uri item)\<rparr>))
            (try_except
               (seq (remote_call EventLoop (StartPlayback (Some [uri item]))
                       (\<lambda>n. start_playback sp n (Some [uri item])))
                  (bnd (\<lambda>s. lift (py_index (results s) (selected_index s)) s) (\<lambda>item'.
                     update_status mk (''Playing: '' @ name item'))))
               (\<lambda>e. case e of
                  SpotifyException status text \<Rightarrow>
                    update_status mk ''Playback Error''
                | _ \<Rightarrow> raise e)))
        else ret ()) s
     else ret () s)"

section \<open>The search pipeline\<close>

text \<open>
  \<open>str.strip()\<close>: the whitespace of Python among the code points a \<open>char\<close> can
  hold (tab to carriage return, the four separators 28 to 31, space, next line, no-break
  space), removed at both ends.
\<close>

definition is_space :: "char \<Rightarrow> bool" where
  "is_space c = ((of_char c :: nat) \<in> {9, 10, 11, 12, 13, 28, 29, 30, 31, 32, 133, 160})"

definition strip :: "string \<Rightarrow> string" where
  "strip s = rev (dropWhile is_space (rev (dropWhile is_space s)))"

text \<open>
  \<open>search_spotify\<close>, lines 125-133. A blank query returns the empty list without a
  remote call; \<open>except Exception\<close> turns every exception of the call into the empty
  list (\<open>py_exception\<close> holds subclasses of \<open>Exception\<close> only; an interrupt of
  the interpreter is not a failure of the call). \<open>c\<close> is where the caller runs the
  function.
\<close>

definition search_spotify :: "remote \<Rightarrow> ctx \<Rightarrow> string \<Rightarrow> track list act" where
  "search_spotify sp c q =
     (if strip q = [] then ret []
      else try_except (remote_call c (Search q) (\<lambda>n. search sp n q)) (\<lambda>e. ret []))"

text \<open>
  \<open>delayed_search\<close> from line 143 on, the part after the last \<open>await\<close>: it stores
  the list, and either resets the selection and draws the rows or shows a placeholder.
\<close>

definition apply_results :: "markup \<Rightarrow> string \<Rightarrow> track list \<Rightarrow> unit act" where
  "apply_results mk q found =
     seq (assign (\<lambda>s. s\<lparr>results := found\<rparr>))
       (if found \<noteq> [] then
          seq (assign (\<lambda>s. s\<lparr>selected_index := 0\<rparr>))
            (bnd (\<lambda>s. lift (render_results (selected_index s) found) s)
               (update_results mk))
        else
          update_results mk (if q \<noteq> [] then ''No results'' else ''Type to search...''))"

text \<open>
  \<open>delayed_search\<close> after the sleep, lines 138-152: the search runs in the worker
  thread of the executor, the coroutine goes on with its answer. The event loop below
  runs the two parts as two steps, with the \<open>await\<close> between them.
\<close>

definition delayed_search :: "markup \<Rightarrow> remote \<Rightarrow> string \<Rightarrow> unit act" where
  "delayed_search mk sp q = bnd (search_spotify sp Executor q) (apply_results mk q)"

text \<open>\<open>task.done()\<close> and \<open>task.cancel()\<close> on the task with index \<open>i\<close>.\<close>

definition task_done :: "app \<Rightarrow> nat \<Rightarrow> bool" where
  "task_done s i = (stage_of (tasks s ! i) = Finished \<or> stage_of (tasks s ! i) = Cancelled)"

definition set_stage :: "nat \<Rightarrow> stage \<Rightarrow> app \<Rightarrow> app" where
  "set_stage i st s = s\<lparr>tasks := (tasks s)[i := (tasks s ! i)\<lparr>stage_of := st\<rparr>]\<rparr>"

definition set_future :: "nat \<Rightarrow> py_exception + track list \<Rightarrow> app \<Rightarrow> app" where
  "set_future i r s = s\<lparr>tasks := (tasks s)[i := (tasks s ! i)\<lparr>future_of := r\<rparr>]\<rparr>"

definition cancel :: "nat \<Rightarrow> unit act" where
  "cancel i = assign (set_stage i Cancelled)"

text \<open>\<open>on_input_changed\<close>, lines 154-168.\<close>

definition on_input_changed :: "markup \<Rightarrow> string \<Rightarrow> unit act" where
  "on_input_changed mk v =
     seq (assign (\<lambda>s. s\<lparr>query := strip v\<rparr>))
       (seq (\<lambda>s. (case search_task s of
                     Some i \<Rightarrow> if \<not> task_done s i then cancel i else ret ()
                   | None \<Rightarrow> ret ()) s)
          (\<lambda>s. (if query s = [] then
                   seq (assign (\<lambda>s. s\<lparr>results := []\<rparr>))
                     (update_results mk ''Type to search...'')
                 else
                   bnd (create_task (DelayedSearch (query s)))
                     (\<lambda>i. assign (\<lambda>s. s\<lparr>search_task := Some i\<rparr>))) s))"

section \<open>The playback pipeline\<close>

text \<open>
  The \<open>except\<close> clause of \<open>handle_playback\<close>, lines 197-201: it catches
  \<open>SpotifyException\<close> only.
\<close>

definition playback_except :: "markup \<Rightarrow> py_exception \<Rightarrow> unit act" where
  "playback_except mk e =
     (case e of
        SpotifyException status text \<Rightarrow>
          if status = 404 then
            update_status mk ''Error: No active Spotify device found''
          else update_status mk (''Playback Error: '' @ text)
      | _ \<Rightarrow> raise e)"

text \<open>\<open>playback and playback.get('is_playing', False)\<close>, as a truth value.\<close>

definition current_state :: "playback option \<Rightarrow> bool" where
  "current_state pb = (case pb of None \<Rightarrow> False | Some p \<Rightarrow> pb_is_playing p)"

text \<open>\<open>if playback and playback.get('item'): status.update(f"Playing: {...}")\<close>.\<close>

definition show_item :: "markup \<Rightarrow> playback option \<Rightarrow> unit act" where
  "show_item mk pb =
     (case pb of
        None \<Rightarrow> ret ()
      | Some p \<Rightarrow>
          (case pb_item p of
             None \<Rightarrow> ret ()
           | Some t \<Rightarrow> update_status mk (''Playing: '' @ name t)))"

text \<open>
  \<open>handle_playback\<close>, lines 170-201, up to its one \<open>await\<close> (line 192). The value
  says whether the coroutine is suspended at the sleep (a skip command went through) or
  has ended. Every remote call is a direct call in the coroutine.
\<close>

definition handle_playback_start :: "markup \<Rightarrow> remote \<Rightarrow> string \<Rightarrow> bool act" where
  "handle_playback_start mk sp action =
     try_except
       (bnd (remote_call EventLoop CurrentPlayback (current_playback sp)) (\<lambda>pb.
          if action = ''play_pause'' then
            (if current_state pb then
               seq (remote_call EventLoop PausePlayback (pause_playback sp))
                 (seq (assign (\<lambda>s. s\<lparr>is_playing := Some False\<rparr>))
                    (seq (update_status mk ''Paused'') (ret False)))
             else
               seq (remote_call EventLoop (StartPlayback None)
                      (\<lambda>n. start_playback sp n None))
                 (seq (assign (\<lambda>s. s\<lparr>is_playing := Some True\<rparr>))
                    (seq (show_item mk pb) (ret False))))
          else if action = ''next'' \<or> action = ''previous'' then
            seq (if action = ''next'' then remote_call EventLoop NextTrack (next_track sp)
                 else remote_call EventLoop PreviousTrack (previous_track sp))
              (seq (assign (\<lambda>s. s\<lparr>is_playing := Some True\<rparr>)) (ret True))
          else ret False))
       (\<lambda>e. seq (playback_except mk e) (ret False))"

text \<open>\<open>handle_playback\<close> after the sleep, lines 193-201.\<close>

definition handle_playback_resume :: "markup \<Rightarrow> remote \<Rightarrow> unit act" where
  "handle_playback_resume mk sp =
     try_except
       (bnd (remote_call EventLoop CurrentPlayback (current_playback sp)) (show_item mk))
       (playback_except mk)"

text \<open>One invocation of \<open>handle_playback\<close> run to its end.\<close>

definition handle_playback :: "markup \<Rightarrow> remote \<Rightarrow> string \<Rightarrow> unit act" where
  "handle_playback mk sp action =
     bnd (handle_playback_start mk sp action)
       (\<lambda>suspended. if suspended then handle_playback_resume mk sp else ret ())"

section \<open>Start-up, focus and the event loop\<close>

text \<open>
  The widgets as \<open>compose\<close> yields them (lines 97-106); \<open>focus\<close> is whether the
  framework gives the search input the focus at the start. The attributes do not exist
  before \<open>on_mount\<close>, which assigns every one of them.
\<close>

definition compose :: "bool \<Rightarrow> app" where
  "compose focus =
     \<lparr>query = [], track_uri = None, selected_index = 0, results = [], search_task = None,
      is_playing = None, results_box = ''Type to search...'', now_playing = ''Not Playing'',
      has_focus = focus, tasks = [], calls = []\<rparr>"

text \<open>\<open>on_mount\<close>, lines 108-123; the bare \<open>except\<close> catches everything.\<close>

definition on_mount :: "markup \<Rightarrow> remote \<Rightarrow> unit act" where
  "on_mount mk sp =
     seq (assign (\<lambda>s. s\<lparr>query := [], track_uri := None, selected_index := 0, results := [],
                         search_task := None\<rparr>))
       (try_except
          (bnd (remote_call EventLoop CurrentPlayback (current_playback sp)) (\<lambda>pb.
             seq (assign (\<lambda>s. s\<lparr>is_playing :=
                    (case pb of None \<Rightarrow> None | Some p \<Rightarrow> Some (pb_is_playing p))\<rparr>))
               (show_item mk pb)))
          (\<lambda>e. assign (\<lambda>s. s\<lparr>is_playing := Some False\<rparr>)))"

text \<open>\<open>action_focus_search\<close> and \<open>action_blur_search\<close>, lines 215-221.\<close>

definition action_focus_search :: "unit act" where
  "action_focus_search = assign (\<lambda>s. s\<lparr>has_focus := True\<rparr>)"

definition action_blur_search :: "unit act" where
  "action_blur_search = assign (\<lambda>s. s\<lparr>has_focus := False\<rparr>)"

text \<open>
  The event loop runs one piece of code at a time, from one \<open>await\<close> to the next. The
  loop resuming task \<open>i\<close> runs the task's coroutine up to its next \<open>await\<close>; a
  finished or cancelled task is never resumed. Cancelling a suspended task raises
  \<open>CancelledError\<close> at its \<open>await\<close>, and neither coroutine catches it, so the
  cancelled task runs no statement of the program again. An exception that leaves a
  coroutine ends its task; the updates made before it stay.

  \<open>delayed_search\<close> wakes from its sleep and hands \<open>search_spotify\<close> to the
  executor: the worker thread makes the remote call then, whatever becomes of the task,
  and the future holds what the call gave. The task is resumed with the future's value
  and runs the rest of the coroutine, or ends with the future's exception.
\<close>

definition resume :: "markup \<Rightarrow> remote \<Rightarrow> nat \<Rightarrow> app \<Rightarrow> app" where
  "resume mk sp i s =
     (if length (tasks s) \<le> i then s
      else
        (case (coro_of (tasks s ! i), stage_of (tasks s ! i)) of
           (DelayedSearch q, Scheduled) \<Rightarrow> set_stage i Sleeping s
         | (DelayedSearch q, Sleeping) \<Rightarrow>
             (case search_spotify sp Executor q s of
                (r, s') \<Rightarrow> set_stage i InExecutor (set_future i r s'))
         | (DelayedSearch q, InExecutor) \<Rightarrow>
             (case future_of (tasks s ! i) of
                Inr found \<Rightarrow> set_stage i Finished (snd (apply_results mk q found s))
              | Inl e \<Rightarrow> set_stage i Finished s)
         | (HandlePlayback a, Scheduled) \<Rightarrow>
             (case handle_playback_start mk sp a s of
                (Inr True, s') \<Rightarrow> set_stage i Sleeping s'
              | (_, s') \<Rightarrow> set_stage i Finished s')
         | (HandlePlayback a, Sleeping) \<Rightarrow>
             set_stage i Finished (snd (handle_playback_resume mk sp s))
         | _ \<Rightarrow> s))"

text \<open>
  What the loop can run next: a handler of the application for an event of the
  framework, or a suspended task. An exception that leaves a handler is the
  framework's to deal with; the state it leaves behind is kept.
\<close>

datatype event =
    InputChanged string
  | Key string
  | FocusSearch
  | BlurSearch
  | Resume nat

fun step :: "markup \<Rightarrow> remote \<Rightarrow> app \<Rightarrow> event \<Rightarrow> app" where
  "step mk sp s (InputChanged v) = snd (on_input_changed mk v s)"
| "step mk sp s (Key k) = snd (on_key mk sp k s)"
| "step mk sp s FocusSearch = snd (action_focus_search s)"
| "step mk sp s BlurSearch = snd (action_blur_search s)"
| "step mk sp s (Resume i) = resume mk sp i s"

definition run :: "markup \<Rightarrow> remote \<Rightarrow> app \<Rightarrow> event list \<Rightarrow> app" where
  "run mk sp s evs = foldl (step mk sp) s evs"

definition mounted :: "markup \<Rightarrow> remote \<Rightarrow> bool \<Rightarrow> app" where
  "mounted mk sp focus = snd (on_mount mk sp (compose focus))"

section \<open>Reachable states and the properties kept along a run\<close>

text \<open>
  The states the application can be in: the one \<open>on_mount\<close> leaves, and every
  state one more piece of code run by the loop leads to.
\<close>

inductive reachable :: "markup \<Rightarrow> remote \<Rightarrow> app \<Rightarrow> bool" for mk :: markup and sp :: remote where
  reach_mounted: "reachable mk sp (mounted mk sp focus)"
| reach_step: "reachable mk sp s \<Longrightarrow> reachable mk sp (step mk sp s ev)"

text \<open>A task that is not \<open>done()\<close>.\<close>

definition pending :: "task \<Rightarrow> bool" where
  "pending t = (stage_of t \<noteq> Finished \<and> stage_of t \<noteq> Cancelled)"

text \<open>The selection points into a non-empty result list.\<close>

definition sel_ok :: "app \<Rightarrow> bool" where
  "sel_ok s = (results s \<noteq> [] \<longrightarrow>
     0 \<le> selected_index s \<and> selected_index s < int (length (results s)))"

text \<open>A task that runs \<open>delayed_search\<close>.\<close>

definition is_search :: "task \<Rightarrow> bool" where
  "is_search t = (case coro_of t of DelayedSearch q \<Rightarrow> True | HandlePlayback a \<Rightarrow> False)"

text \<open>
  \<open>search_task\<close> names a task of the loop, and a search task that is not done is the
  one \<open>search_task\<close> names and searches for the current query.
\<close>

definition search_ok :: "app \<Rightarrow> bool" where
  "search_ok s =
     ((\<forall>i. search_task s = Some i \<longrightarrow> i < length (tasks s)) \<and>
      (\<forall>i<length (tasks s). is_search (tasks s ! i) \<longrightarrow> pending (tasks s ! i) \<longrightarrow>
          search_task s = Some i \<and> coro_of (tasks s ! i) = DelayedSearch (query s)))"

text \<open>
  What the playback pipeline leaves alone: the search attributes, the result widget,
  the focus and the tasks.
\<close>

definition same_search :: "app \<Rightarrow> app \<Rightarrow> bool" where
  "same_search s s' =
     (results s' = results s \<and> selected_index s' = selected_index s \<and> tasks s' = tasks s \<and>
      search_task s' = search_task s \<and> query s' = query s \<and> has_focus s' = has_focus s \<and>
      results_box s' = results_box s \<and> track_uri s' = track_uri s)"

definition keeps :: "'a act \<Rightarrow> bool" where
  "keeps m = (\<forall>s. same_search s (snd (m s)))"

section \<open>Concrete remotes and runs\<close>

text \<open>
  A markup parser that takes no text with a bracket (texts without one are plain), two
  tracks, a track whose name is not well-formed markup, and remotes that answer the
  same way every time.
\<close>

definition no_markup :: markup where
  "no_markup text = False"


definition demo_t1 :: track where
  "demo_t1 = \<lparr>name = ''Bohemian Rhapsody'', artists = [\<lparr>artist_name = ''Queen''\<rparr>],
              uri = ''spotify:track:1''\<rparr>"

definition demo_t2 :: track where
  "demo_t2 = \<lparr>name = ''Imagine'', artists = [\<lparr>artist_name = ''John Lennon''\<rparr>],
              uri = ''spotify:track:2''\<rparr>"

text \<open>
  \<open>sp_fixed pb cmd\<close>: every read of the playback state answers \<open>pb\<close>, every
  playback command answers \<open>cmd\<close>, every search finds the two tracks.
\<close>

definition sp_fixed :: "py_exception + playback option \<Rightarrow> py_exception + unit \<Rightarrow> remote" where
  "sp_fixed pb cmd =
     \<lparr>current_playback = (\<lambda>n. pb), pause_playback = (\<lambda>n. cmd),
      start_playback = (\<lambda>n uris. cmd), next_track = (\<lambda>n. cmd), previous_track = (\<lambda>n. cmd),
      search = (\<lambda>n q. Inr [demo_t1, demo_t2])\<rparr>"

definition sp_demo :: remote where
  "sp_demo = sp_fixed (Inr None) (Inr ())"

definition sp_failing :: "py_exception \<Rightarrow> remote" where
  "sp_failing e = sp_fixed (Inl e) (Inl e)"

text \<open>The user types \<open>a\<close> and the search for it completes.\<close>

definition listed :: "markup \<Rightarrow> remote \<Rightarrow> bool \<Rightarrow> app" where
  "listed mk sp focus =
     run mk sp (mounted mk sp focus) [InputChanged ''a'', Resume 0, Resume 0, Resume 0]"

section \<open>Proofs\<close>

lemma accepted_plain:
  "accepted mk ''Type to search...''"
  "accepted mk ''No results''"
  "accepted mk ''Paused''"
  "accepted mk ''Playback Error''"
  "accepted mk ''Error: No active Spotify device found''"
  by (simp_all add: accepted_def)

lemmas act_defs = ret_def raise_def bnd_def seq_def try_except_def assign_def lift_def
  remote_call_def create_task_def update_results_def update_status_def accepted_plain

subsection \<open>What the playback pipeline keeps\<close>

lemma keeps_ret: "keeps (ret x)"
  by (simp add: keeps_def ret_def same_search_def)

lemma keeps_raise: "keeps (raise e)"
  by (simp add: keeps_def raise_def same_search_def)

lemma keeps_remote_call: "keeps (remote_call c k answer)"
  by (simp add: keeps_def remote_call_def same_search_def)

lemma keeps_assign: "(\<And>s. same_search s (f s)) \<Longrightarrow> keeps (assign f)"
  by (simp add: keeps_def assign_def)

lemma keeps_bnd: "keeps m \<Longrightarrow> (\<And>x. keeps (f x)) \<Longrightarrow> keeps (bnd m f)"
  unfolding keeps_def bnd_def same_search_def
  by (auto split: prod.splits sum.splits) (metis snd_conv)+

lemma keeps_seq: "keeps m \<Longrightarrow> keeps n \<Longrightarrow> keeps (seq m n)"
  by (simp add: seq_def keeps_bnd)

lemma keeps_try_except: "keeps m \<Longrightarrow> (\<And>e. keeps (h e)) \<Longrightarrow> keeps (try_except m h)"
  unfolding keeps_def try_except_def same_search_def
  by (auto split: prod.splits sum.splits) (metis snd_conv)+

lemma keeps_if: "keeps m \<Longrightarrow> keeps n \<Longrightarrow> keeps (if b then m else n)"
  by simp

lemma keeps_update_status: "keeps (update_status mk text)"
  by (simp add: keeps_def update_status_def assign_def raise_def same_search_def)

lemmas keeps_intros = keeps_ret keeps_raise keeps_remote_call keeps_bnd keeps_seq
  keeps_try_except keeps_if keeps_update_status

lemma keeps_playback_except: "keeps (playback_except mk e)"
  by (cases e) (auto simp: playback_except_def intro!: keeps_intros)

lemma keeps_show_item: "keeps (show_item mk pb)"
  by (auto simp: show_item_def split: option.splits intro!: keeps_intros)

lemma keeps_handle_playback_start: "keeps (handle_playback_start mk sp a)"
  unfolding handle_playback_start_def
  by (intro keeps_intros keeps_assign keeps_playback_except keeps_show_item)
     (simp_all add: same_search_def)

lemma keeps_handle_playback_resume: "keeps (handle_playback_resume mk sp)"
  unfolding handle_playback_resume_def
  by (intro keeps_intros keeps_assign keeps_playback_except keeps_show_item)

lemma handle_playback_start_same: "same_search s (snd (handle_playback_start mk sp a s))"
  using keeps_handle_playback_start by (simp add: keeps_def)

lemma handle_playback_resume_same: "same_search s (snd (handle_playback_resume mk sp s))"
  using keeps_handle_playback_resume by (simp add: keeps_def)

subsection \<open>The key handler\<close>

lemma on_key_frame:
  "results (snd (on_key mk sp key s)) = results s"
  "query (snd (on_key mk sp key s)) = query s"
  "search_task (snd (on_key mk sp key s)) = search_task s"
  "is_playing (snd (on_key mk sp key s)) = is_playing s"
  "has_focus (snd (on_key mk sp key s)) = has_focus s"
  by (simp_all add: on_key_def act_defs split: sum.splits prod.splits py_exception.splits)

lemma on_key_tasks:
  "tasks (snd (on_key mk sp key s)) = tasks s \<or>
   (\<exists>a. tasks (snd (on_key mk sp key s)) =
          tasks s @ [\<lparr>coro_of = HandlePlayback a, stage_of = Scheduled, future_of = Inr []\<rparr>])"
  by (simp add: on_key_def act_defs split: sum.splits prod.splits py_exception.splits)

lemma on_key_selected_index:
  "selected_index (snd (on_key mk sp key s)) =
     (if has_focus s \<and> results s \<noteq> [] then
        (if key = ''down'' then min (selected_index s + 1) (int (length (results s)) - 1)
         else if key = ''up'' then max (selected_index s - 1) 0
         else selected_index s)
      else selected_index s)"
  by (simp add: on_key_def act_defs split: sum.splits prod.splits py_exception.splits)

lemma sel_ok_on_key: "sel_ok s \<Longrightarrow> sel_ok (snd (on_key mk sp key s))"
  by (auto simp: sel_ok_def on_key_frame on_key_selected_index)

subsection \<open>The search pipeline\<close>

lemma on_input_changed_blank:
  "strip v = [] \<Longrightarrow>
   on_input_changed mk v s =
     (Inr (),
      (case search_task s of
         Some i \<Rightarrow> if task_done s i then s\<lparr>query := strip v\<rparr>
                  else set_stage i Cancelled (s\<lparr>query := strip v\<rparr>)
       | None \<Rightarrow> s\<lparr>query := strip v\<rparr>)
      \<lparr>results := [], results_box := ''Type to search...''\<rparr>)"
  by (simp add: on_input_changed_def act_defs cancel_def task_done_def set_stage_def
      split: option.splits)

lemma on_input_changed_text:
  "strip v \<noteq> [] \<Longrightarrow>
   on_input_changed mk v s =
     (Inr (),
      (let s' = (case search_task s of
                  Some i \<Rightarrow> if task_done s i then s\<lparr>query := strip v\<rparr>
                           else set_stage i Cancelled (s\<lparr>query := strip v\<rparr>)
                | None \<Rightarrow> s\<lparr>query := strip v\<rparr>)
       in s'\<lparr>tasks := tasks s' @ [\<lparr>coro_of = DelayedSearch (strip v), stage_of = Scheduled, future_of = Inr []\<rparr>],
             search_task := Some (length (tasks s'))\<rparr>))"
  by (simp add: on_input_changed_def act_defs cancel_def task_done_def set_stage_def Let_def
      split: option.splits)

lemma apply_results_state:
  "snd (apply_results mk q found s) =
     (if found \<noteq> [] then
        (case render_results 0 found of
           Inl e \<Rightarrow> s\<lparr>results := found, selected_index := 0\<rparr>
         | Inr text \<Rightarrow>
             if accepted mk text
             then s\<lparr>results := found, selected_index := 0, results_box := text\<rparr>
             else s\<lparr>results := found, selected_index := 0\<rparr>)
      else s\<lparr>results := [], results_box := (if q \<noteq> [] then ''No results''
                                               else ''Type to search...'')\<rparr>)"
  by (simp add: apply_results_def act_defs split: sum.splits)

lemma search_spotify_result:
  "search_spotify sp c q s =
     (if strip q = [] then (Inr [], s)
      else (case search sp (length (calls s)) q of
              Inl e \<Rightarrow> (Inr [], s\<lparr>calls := calls s @ [(c, Search q)]\<rparr>)
            | Inr found \<Rightarrow> (Inr found, s\<lparr>calls := calls s @ [(c, Search q)]\<rparr>)))"
  by (simp add: search_spotify_def act_defs split: sum.splits)

lemma delayed_search_unfold:
  "\<exists>found. delayed_search mk sp q s =
     apply_results mk q found
       (s\<lparr>calls := calls s @ (if strip q = [] then [] else [(Executor, Search q)])\<rparr>)"
  by (cases "search sp (length (calls s)) q")
     (auto simp add: delayed_search_def bnd_def search_spotify_result)

lemma apply_results_frame:
  "tasks (snd (apply_results mk q found s)) = tasks s"
  "query (snd (apply_results mk q found s)) = query s"
  "search_task (snd (apply_results mk q found s)) = search_task s"
  "is_playing (snd (apply_results mk q found s)) = is_playing s"
  "has_focus (snd (apply_results mk q found s)) = has_focus s"
  "now_playing (snd (apply_results mk q found s)) = now_playing s"
  "calls (snd (apply_results mk q found s)) = calls s"
  "results (snd (apply_results mk q found s)) = found"
  "selected_index (snd (apply_results mk q found s)) = (if found \<noteq> [] then 0 else selected_index s)"
  by (simp_all add: apply_results_state split: sum.splits)

lemma delayed_search_frame:
  "tasks (snd (delayed_search mk sp q s)) = tasks s"
  "query (snd (delayed_search mk sp q s)) = query s"
  "search_task (snd (delayed_search mk sp q s)) = search_task s"
  "is_playing (snd (delayed_search mk sp q s)) = is_playing s"
  "has_focus (snd (delayed_search mk sp q s)) = has_focus s"
  "now_playing (snd (delayed_search mk sp q s)) = now_playing s"
  using delayed_search_unfold [of mk sp q s] by (auto simp: apply_results_frame)

lemma delayed_search_selected:
  "selected_index (snd (delayed_search mk sp q s)) =
     (if results (snd (delayed_search mk sp q s)) \<noteq> [] then 0 else selected_index s)"
  using delayed_search_unfold [of mk sp q s] by (auto simp: apply_results_frame)

subsection \<open>One step of the loop\<close>

lemma set_stage_simps:
  "results (set_stage i st s) = results s"
  "selected_index (set_stage i st s) = selected_index s"
  "search_task (set_stage i st s) = search_task s"
  "query (set_stage i st s) = query s"
  "has_focus (set_stage i st s) = has_focus s"
  "is_playing (set_stage i st s) = is_playing s"
  "results_box (set_stage i st s) = results_box s"
  "now_playing (set_stage i st s) = now_playing s"
  "calls (set_stage i st s) = calls s"
  "length (tasks (set_stage i st s)) = length (tasks s)"
  by (simp_all add: set_stage_def)

lemma set_stage_nth:
  "j < length (tasks s) \<Longrightarrow>
   tasks (set_stage i st s) ! j =
     (if j = i then (tasks s ! i)\<lparr>stage_of := st\<rparr> else tasks s ! j)"
  by (simp add: set_stage_def nth_list_update)

lemma set_future_simps:
  "results (set_future i r s) = results s"
  "selected_index (set_future i r s) = selected_index s"
  "search_task (set_future i r s) = search_task s"
  "query (set_future i r s) = query s"
  "has_focus (set_future i r s) = has_focus s"
  "is_playing (set_future i r s) = is_playing s"
  "results_box (set_future i r s) = results_box s"
  "now_playing (set_future i r s) = now_playing s"
  "calls (set_future i r s) = calls s"
  "length (tasks (set_future i r s)) = length (tasks s)"
  by (simp_all add: set_future_def)

lemma set_future_nth:
  "j < length (tasks s) \<Longrightarrow>
   tasks (set_future i r s) ! j =
     (if j = i then (tasks s ! i)\<lparr>future_of := r\<rparr> else tasks s ! j)"
  by (simp add: set_future_def nth_list_update)

lemma search_spotify_frame:
  "results (snd (search_spotify sp c q s)) = results s"
  "selected_index (snd (search_spotify sp c q s)) = selected_index s"
  "search_task (snd (search_spotify sp c q s)) = search_task s"
  "query (snd (search_spotify sp c q s)) = query s"
  "has_focus (snd (search_spotify sp c q s)) = has_focus s"
  "is_playing (snd (search_spotify sp c q s)) = is_playing s"
  "results_box (snd (search_spotify sp c q s)) = results_box s"
  "now_playing (snd (search_spotify sp c q s)) = now_playing s"
  "tasks (snd (search_spotify sp c q s)) = tasks s"
  by (simp_all add: search_spotify_result split: sum.splits)

lemma resume_shape:
  "resume mk sp i s = s \<or>
   (\<exists>st. resume mk sp i s = set_stage i st s) \<or>
   (\<exists>q r. resume mk sp i s =
      set_stage i InExecutor (set_future i r (snd (search_spotify sp Executor q s)))) \<or>
   (\<exists>q found. resume mk sp i s = set_stage i Finished (snd (apply_results mk q found s))) \<or>
   (\<exists>a st. resume mk sp i s = set_stage i st (snd (handle_playback_start mk sp a s))) \<or>
   (resume mk sp i s = set_stage i Finished (snd (handle_playback_resume mk sp s)))"
proof (cases "length (tasks s) \<le> i")
  case True
  then show ?thesis by (simp add: resume_def)
next
  case False
  show ?thesis
  proof (cases "coro_of (tasks s ! i)")
    case (DelayedSearch q)
    show ?thesis
    proof (cases "stage_of (tasks s ! i)")
      case Sleeping
      obtain r s' where rs: "search_spotify sp Executor q s = (r, s')"
        by (cases "search_spotify sp Executor q s")
      with False DelayedSearch Sleeping
      have "resume mk sp i s = set_stage i InExecutor (set_future i r s')"
        by (simp add: resume_def)
      with rs show ?thesis by (metis snd_conv)
    next
      case InExecutor
      with False DelayedSearch show ?thesis
        by (cases "future_of (tasks s ! i)") (auto simp: resume_def)
    qed (use False DelayedSearch in \<open>auto simp: resume_def\<close>)
  next
    case (HandlePlayback a)
    show ?thesis
    proof (cases "stage_of (tasks s ! i)")
      case Scheduled
      obtain r s' where rs: "handle_playback_start mk sp a s = (r, s')"
        by (cases "handle_playback_start mk sp a s")
      have "resume mk sp i s = set_stage i Sleeping s' \<or> resume mk sp i s = set_stage i Finished s'"
        using False HandlePlayback Scheduled rs
        by (auto simp: resume_def split: sum.splits bool.splits)
      with rs show ?thesis by (metis snd_conv)
    qed (use False HandlePlayback in \<open>auto simp: resume_def\<close>)
  qed
qed

lemma sel_ok_set_stage: "sel_ok (set_stage i st s) = sel_ok s"
  by (simp add: sel_ok_def set_stage_simps)

lemma sel_ok_same: "same_search s s' \<Longrightarrow> sel_ok s \<Longrightarrow> sel_ok s'"
  by (simp add: sel_ok_def same_search_def)

lemma sel_ok_set_future: "sel_ok (set_future i r s) = sel_ok s"
  by (simp add: sel_ok_def set_future_simps)

lemma sel_ok_search_spotify: "sel_ok (snd (search_spotify sp c q s)) = sel_ok s"
  by (simp add: sel_ok_def search_spotify_frame)

lemma sel_ok_apply_results: "sel_ok (snd (apply_results mk q found s))"
  by (simp add: sel_ok_def apply_results_frame)

lemma sel_ok_resume: "sel_ok s \<Longrightarrow> sel_ok (resume mk sp i s)"
  using resume_shape [of mk sp i s]
    sel_ok_same [OF handle_playback_start_same, of s mk sp]
    sel_ok_same [OF handle_playback_resume_same, of s mk sp]
  by (auto simp: sel_ok_set_stage sel_ok_set_future sel_ok_search_spotify sel_ok_apply_results)

lemma sel_ok_on_input_changed: "sel_ok s \<Longrightarrow> sel_ok (snd (on_input_changed mk v s))"
  by (cases "strip v = []")
     (auto simp: on_input_changed_blank on_input_changed_text sel_ok_def set_stage_simps Let_def
      split: option.splits)

lemma sel_ok_focus:
  "sel_ok (snd (action_focus_search s)) = sel_ok s"
  "sel_ok (snd (action_blur_search s)) = sel_ok s"
  by (simp_all add: action_focus_search_def action_blur_search_def assign_def sel_ok_def)

lemma sel_ok_step: "sel_ok s \<Longrightarrow> sel_ok (step mk sp s ev)"
  by (cases ev)
     (simp_all add: sel_ok_on_input_changed sel_ok_on_key sel_ok_resume sel_ok_focus)

lemma sel_ok_mounted: "sel_ok (mounted mk sp focus)"
proof -
  have "results (mounted mk sp focus) = []"
    by (simp add: mounted_def on_mount_def compose_def act_defs show_item_def
        split: sum.splits option.splits)
  then show ?thesis by (simp add: sel_ok_def)
qed

lemma reachable_sel_ok: "reachable mk sp s \<Longrightarrow> sel_ok s"
  by (induction rule: reachable.induct) (simp_all add: sel_ok_mounted sel_ok_step)

lemma reachable_run: "reachable mk sp s \<Longrightarrow> reachable mk sp (run mk sp s evs)"
  unfolding run_def by (induction evs arbitrary: s) (simp_all add: reach_step)

subsection \<open>Search tasks\<close>

lemma search_ok_mounted: "search_ok (mounted mk sp focus)"
proof -
  have "tasks (mounted mk sp focus) = []" "search_task (mounted mk sp focus) = None"
    by (simp_all add: mounted_def on_mount_def compose_def act_defs show_item_def
        split: sum.splits option.splits)
  then show ?thesis by (simp add: search_ok_def)
qed

lemma search_ok_same:
  assumes "same_search s s'" and "search_ok s"
  shows "search_ok s'"
proof -
  from assms(1) have e: "tasks s' = tasks s" "search_task s' = search_task s" "query s' = query s"
    unfolding same_search_def by blast+
  from assms(2) show ?thesis unfolding search_ok_def e .
qed

lemma search_ok_focus:
  "search_ok (snd (action_focus_search s)) = search_ok s"
  "search_ok (snd (action_blur_search s)) = search_ok s"
  by (simp_all add: action_focus_search_def action_blur_search_def assign_def search_ok_def)

lemma search_okI:
  assumes "\<And>i. search_task s = Some i \<Longrightarrow> i < length (tasks s)"
    and "\<And>i. i < length (tasks s) \<Longrightarrow> is_search (tasks s ! i) \<Longrightarrow> pending (tasks s ! i) \<Longrightarrow>
           search_task s = Some i \<and> coro_of (tasks s ! i) = DelayedSearch (query s)"
  shows "search_ok s"
  unfolding search_ok_def using assms by blast

lemma search_ok_index: "search_ok s \<Longrightarrow> search_task s = Some i \<Longrightarrow> i < length (tasks s)"
  unfolding search_ok_def by blast

lemma search_ok_pending:
  "search_ok s \<Longrightarrow> i < length (tasks s) \<Longrightarrow> is_search (tasks s ! i) \<Longrightarrow> pending (tasks s ! i) \<Longrightarrow>
   search_task s = Some i \<and> coro_of (tasks s ! i) = DelayedSearch (query s)"
  unfolding search_ok_def by blast

lemma search_ok_set_stage:
  assumes ok: "search_ok s"
    and st: "is_search (tasks s ! i) \<Longrightarrow> st \<noteq> Finished \<Longrightarrow> st \<noteq> Cancelled \<Longrightarrow> pending (tasks s ! i)"
  shows "search_ok (set_stage i st s)"
proof (rule search_okI)
  fix j
  assume "search_task (set_stage i st s) = Some j"
  then show "j < length (tasks (set_stage i st s))"
    using search_ok_index [OF ok, of j] by (simp add: set_stage_simps)
next
  fix j
  assume j: "j < length (tasks (set_stage i st s))"
    and a: "is_search (tasks (set_stage i st s) ! j)"
    and p: "pending (tasks (set_stage i st s) ! j)"
  from j have j': "j < length (tasks s)" by (simp add: set_stage_simps)
  have "is_search (tasks s ! j) \<and> pending (tasks s ! j) \<and>
        coro_of (tasks (set_stage i st s) ! j) = coro_of (tasks s ! j)"
  proof (cases "j = i")
    case True
    with j' a p st show ?thesis
      by (simp add: set_stage_nth is_search_def pending_def)
  next
    case False
    with j' a p show ?thesis by (simp add: set_stage_nth)
  qed
  with search_ok_pending [OF ok j'] 
  show "search_task (set_stage i st s) = Some j \<and>
        coro_of (tasks (set_stage i st s) ! j) = DelayedSearch (query (set_stage i st s))"
    by (simp add: set_stage_simps)
qed

lemma search_ok_on_key:
  assumes ok: "search_ok s"
  shows "search_ok (snd (on_key mk sp key s))"
proof -
  let ?s' = "snd (on_key mk sp key s)"
  have nth: "\<And>i. i < length (tasks ?s') \<Longrightarrow> is_search (tasks ?s' ! i) \<Longrightarrow>
               i < length (tasks s) \<and> tasks ?s' ! i = tasks s ! i"
    and len: "length (tasks s) \<le> length (tasks ?s')"
    using on_key_tasks [of mk sp key s]
    by (auto simp: nth_append less_Suc_eq is_search_def)
  show ?thesis
  proof (rule search_okI)
    fix i
    assume "search_task ?s' = Some i"
    then show "i < length (tasks ?s')"
      using search_ok_index [OF ok, of i] len by (simp add: on_key_frame)
  next
    fix i
    assume "i < length (tasks ?s')" "is_search (tasks ?s' ! i)" "pending (tasks ?s' ! i)"
    then show "search_task ?s' = Some i \<and> coro_of (tasks ?s' ! i) = DelayedSearch (query ?s')"
      using nth [of i] search_ok_pending [OF ok, of i] by (simp add: on_key_frame)
  qed
qed

lemma cancelled_not_pending:
  fixes s :: app and w :: string
  assumes ok: "search_ok s"
  defines "s1 \<equiv> (case search_task s of
                    Some i \<Rightarrow> if task_done s i then s\<lparr>query := w\<rparr>
                             else set_stage i Cancelled (s\<lparr>query := w\<rparr>)
                  | None \<Rightarrow> s\<lparr>query := w\<rparr>)"
  shows "length (tasks s1) = length (tasks s)"
    and "search_task s1 = search_task s"
    and "query s1 = w"
    and "\<And>i. i < length (tasks s) \<Longrightarrow> is_search (tasks s1 ! i) \<Longrightarrow> \<not> pending (tasks s1 ! i)"
proof -
  show "length (tasks s1) = length (tasks s)" "search_task s1 = search_task s" "query s1 = w"
    by (simp_all add: s1_def set_stage_def split: option.splits)
next
  fix i
  assume i: "i < length (tasks s)" and c: "is_search (tasks s1 ! i)"
  show "\<not> pending (tasks s1 ! i)"
  proof (cases "search_task s")
    case None
    then have "tasks s1 = tasks s" by (simp add: s1_def)
    with search_ok_pending [OF ok i] c None show ?thesis by auto
  next
    case (Some j)
    show ?thesis
    proof (cases "task_done s j")
      case True
      with Some have t: "tasks s1 = tasks s" by (simp add: s1_def)
      show ?thesis
      proof
        assume p: "pending (tasks s1 ! i)"
        with search_ok_pending [OF ok i] c t Some have "i = j" by auto
        with True p t show False
          by (simp add: task_done_def pending_def)
      qed
    next
      case False
      with Some have t: "tasks s1 = (tasks s)[j := (tasks s ! j)\<lparr>stage_of := Cancelled\<rparr>]"
        by (simp add: s1_def set_stage_def)
      show ?thesis
      proof (cases "i = j")
        case True
        with t i show ?thesis by (simp add: pending_def)
      next
        case False
        with t i c have "tasks s1 ! i = tasks s ! i" by simp
        with search_ok_pending [OF ok i] c Some False show ?thesis by auto
      qed
    qed
  qed
qed

lemma search_ok_on_input_changed:
  assumes ok: "search_ok s"
  shows "search_ok (snd (on_input_changed mk v s))"
proof -
  define s1 where "s1 = (case search_task s of
                    Some i \<Rightarrow> if task_done s i then s\<lparr>query := strip v\<rparr>
                             else set_stage i Cancelled (s\<lparr>query := strip v\<rparr>)
                  | None \<Rightarrow> s\<lparr>query := strip v\<rparr>)"
  note c = cancelled_not_pending [OF ok, where w = "strip v", folded s1_def]
  show ?thesis
  proof (cases "strip v = []")
    case True
    then have e: "snd (on_input_changed mk v s) = s1\<lparr>results := [], results_box := ''Type to search...''\<rparr>"
      by (simp add: on_input_changed_blank s1_def)
    show ?thesis
    proof (rule search_okI)
      fix i
      assume "search_task (snd (on_input_changed mk v s)) = Some i"
      then show "i < length (tasks (snd (on_input_changed mk v s)))"
        using search_ok_index [OF ok, of i] by (simp add: e c)
    next
      fix i
      assume "i < length (tasks (snd (on_input_changed mk v s)))"
        "is_search (tasks (snd (on_input_changed mk v s)) ! i)"
        "pending (tasks (snd (on_input_changed mk v s)) ! i)"
      then have False using c(4) [of i] by (simp add: e c)
      then show "search_task (snd (on_input_changed mk v s)) = Some i \<and>
          coro_of (tasks (snd (on_input_changed mk v s)) ! i) =
            DelayedSearch (query (snd (on_input_changed mk v s)))" ..
    qed
  next
    case False
    then have e: "snd (on_input_changed mk v s) =
        s1\<lparr>tasks := tasks s1 @ [\<lparr>coro_of = DelayedSearch (strip v), stage_of = Scheduled, future_of = Inr []\<rparr>],
           search_task := Some (length (tasks s1))\<rparr>"
      by (simp add: on_input_changed_text s1_def Let_def)
    show ?thesis
    proof (rule search_okI)
      fix i
      assume "search_task (snd (on_input_changed mk v s)) = Some i"
      then show "i < length (tasks (snd (on_input_changed mk v s)))"
        by (auto simp: e)
    next
      fix i
      assume i: "i < length (tasks (snd (on_input_changed mk v s)))"
        and a: "is_search (tasks (snd (on_input_changed mk v s)) ! i)"
        and p: "pending (tasks (snd (on_input_changed mk v s)) ! i)"
      have "i = length (tasks s1)"
      proof (rule ccontr)
        assume "i \<noteq> length (tasks s1)"
        with i have "i < length (tasks s)" by (simp add: e c)
        with a p c(4) [of i] show False by (simp add: e c nth_append)
      qed
      then show "search_task (snd (on_input_changed mk v s)) = Some i \<and>
          coro_of (tasks (snd (on_input_changed mk v s)) ! i) =
            DelayedSearch (query (snd (on_input_changed mk v s)))"
        by (simp add: e c nth_append)
    qed
  qed
qed

lemma search_ok_cong:
  assumes "tasks s' = tasks s" and "search_task s' = search_task s" and "query s' = query s"
  shows "search_ok s' = search_ok s"
  unfolding search_ok_def assms ..

lemma search_ok_apply_results: "search_ok s \<Longrightarrow> search_ok (snd (apply_results mk q found s))"
  by (simp add: search_ok_cong [OF apply_results_frame(1) apply_results_frame(3)
        apply_results_frame(2)])

lemma search_ok_search_spotify: "search_ok s \<Longrightarrow> search_ok (snd (search_spotify sp c q s))"
  by (simp add: search_ok_cong [OF search_spotify_frame(9) search_spotify_frame(3)
        search_spotify_frame(4)])

lemma search_ok_set_stage_done:
  "search_ok s \<Longrightarrow> search_ok (set_stage i Finished s)"
  "search_ok s \<Longrightarrow> search_ok (set_stage i Cancelled s)"
  by (rule search_ok_set_stage; simp)+

lemma search_ok_set_stage_pending:
  "search_ok s \<Longrightarrow> pending (tasks s ! i) \<Longrightarrow> search_ok (set_stage i st s)"
  by (rule search_ok_set_stage; simp)

lemma search_ok_set_stage_other:
  "search_ok s \<Longrightarrow> \<not> is_search (tasks s ! i) \<Longrightarrow> search_ok (set_stage i st s)"
  by (rule search_ok_set_stage; simp)

lemma search_ok_set_future:
  assumes ok: "search_ok s"
  shows "search_ok (set_future i r s)"
proof (rule search_okI)
  fix j
  assume "search_task (set_future i r s) = Some j"
  then show "j < length (tasks (set_future i r s))"
    using search_ok_index [OF ok, of j] by (simp add: set_future_simps)
next
  fix j
  assume j: "j < length (tasks (set_future i r s))"
    and a: "is_search (tasks (set_future i r s) ! j)"
    and p: "pending (tasks (set_future i r s) ! j)"
  from j have j': "j < length (tasks s)" by (simp add: set_future_simps)
  have "is_search (tasks s ! j) \<and> pending (tasks s ! j) \<and>
        coro_of (tasks (set_future i r s) ! j) = coro_of (tasks s ! j)"
    using j' a p by (cases "j = i") (simp_all add: set_future_nth is_search_def pending_def)
  with search_ok_pending [OF ok j']
  show "search_task (set_future i r s) = Some j \<and>
        coro_of (tasks (set_future i r s) ! j) = DelayedSearch (query (set_future i r s))"
    by (simp add: set_future_simps)
qed

lemma search_ok_resume:
  assumes ok: "search_ok s"
  shows "search_ok (resume mk sp i s)"
proof (cases "length (tasks s) \<le> i")
  case True
  with ok show ?thesis by (simp add: resume_def)
next
  case False
  show ?thesis
  proof (cases "coro_of (tasks s ! i)")
    case (DelayedSearch q)
    show ?thesis
    proof (cases "stage_of (tasks s ! i)")
      case Scheduled
      with False DelayedSearch have "resume mk sp i s = set_stage i Sleeping s"
        by (simp add: resume_def)
      with ok Scheduled show ?thesis by (simp add: search_ok_set_stage_pending pending_def)
    next
      case Sleeping
      obtain r s' where rs: "search_spotify sp Executor q s = (r, s')"
        by (cases "search_spotify sp Executor q s")
      with False DelayedSearch Sleeping
      have e: "resume mk sp i s = set_stage i InExecutor (set_future i r s')"
        by (simp add: resume_def)
      from rs have t: "tasks s' = tasks s"
        using search_spotify_frame(9) [of sp Executor q s] by simp
      from rs ok have "search_ok s'"
        using search_ok_search_spotify [of s sp Executor q] by simp
      then have o: "search_ok (set_future i r s')" by (rule search_ok_set_future)
      from False Sleeping t have "pending (tasks (set_future i r s') ! i)"
        by (simp add: set_future_nth pending_def)
      with o e show ?thesis by (simp add: search_ok_set_stage_pending)
    next
      case InExecutor
      with False DelayedSearch ok show ?thesis
        by (cases "future_of (tasks s ! i)")
           (simp_all add: resume_def search_ok_set_stage_done search_ok_apply_results)
    next
      case Finished
      with False DelayedSearch ok show ?thesis by (simp add: resume_def)
    next
      case Cancelled
      with False DelayedSearch ok show ?thesis by (simp add: resume_def)
    qed
  next
    case (HandlePlayback a)
    then have n: "\<not> is_search (tasks s ! i)" by (simp add: is_search_def)
    show ?thesis
    proof (cases "stage_of (tasks s ! i)")
      case Scheduled
      obtain r s' where rs: "handle_playback_start mk sp a s = (r, s')"
        by (cases "handle_playback_start mk sp a s")
      have e: "resume mk sp i s = set_stage i Sleeping s' \<or> resume mk sp i s = set_stage i Finished s'"
        using False HandlePlayback Scheduled rs
        by (auto simp: resume_def split: sum.splits bool.splits)
      have same: "same_search s s'"
        using handle_playback_start_same [of s mk sp a] rs by simp
      then have "tasks s' = tasks s" unfolding same_search_def by blast
      with n have n': "\<not> is_search (tasks s' ! i)" by simp
      from search_ok_same [OF same ok] n' e show ?thesis
        by (auto simp: search_ok_set_stage_other)
    next
      case Sleeping
      with False HandlePlayback
      have "resume mk sp i s = set_stage i Finished (snd (handle_playback_resume mk sp s))"
        by (simp add: resume_def)
      with search_ok_same [OF handle_playback_resume_same ok, of mk sp] show ?thesis
        by (simp add: search_ok_set_stage_done)
    qed (use False HandlePlayback ok in \<open>simp_all add: resume_def\<close>)
  qed
qed

lemma search_ok_step: "search_ok s \<Longrightarrow> search_ok (step mk sp s ev)"
  by (cases ev)
     (simp_all add: search_ok_on_input_changed search_ok_on_key search_ok_resume search_ok_focus)

lemma reachable_search_ok: "reachable mk sp s \<Longrightarrow> search_ok s"
  by (induction rule: reachable.induct) (simp_all add: search_ok_mounted search_ok_step)

lemma reachable_listed: "reachable mk sp (listed mk sp focus)"
  unfolding listed_def by (rule reachable_run) (rule reach_mounted)

section \<open>The claims\<close>

text \<open>
  C9. In every reachable state with a non-empty result list the selection is at least 0
  and less than the length of the list, so the indexing expression
  \<open>self.results[self.selected_index]\<close> of the enter branch of \<open>on_key\<close> finds an
  element of the list and raises no \<open>IndexError\<close>.
\<close>

theorem enter_index_in_bounds:
  assumes "reachable mk sp s" and "results s \<noteq> []"
  shows "0 \<le> selected_index s \<and> selected_index s < int (length (results s)) \<and>
         py_index (results s) (selected_index s) = Inr (results s ! nat (selected_index s))"
proof -
  from reachable_sel_ok [OF assms(1)] assms(2)
  have b: "0 \<le> selected_index s" "selected_index s < int (length (results s))"
    by (simp_all add: sel_ok_def)
  then have "py_index (results s) (selected_index s) = Inr (results s ! nat (selected_index s))"
    by (simp add: py_index_def)
  with b show ?thesis by blast
qed

theorem enter_index_in_bounds_witness:
  "reachable no_markup sp_demo (listed no_markup sp_demo True) \<and> results (listed no_markup sp_demo True) \<noteq> [] \<and>
   selected_index (listed no_markup sp_demo True) = 0 \<and>
   py_index (results (listed no_markup sp_demo True)) (selected_index (listed no_markup sp_demo True)) = Inr demo_t1"
proof -
  have r: "reachable no_markup sp_demo (listed no_markup sp_demo True)" by (rule reachable_listed)
  have n: "results (listed no_markup sp_demo True) \<noteq> []" by code_simp
  have v: "selected_index (listed no_markup sp_demo True) = 0"
    "results (listed no_markup sp_demo True) ! nat 0 = demo_t1" by code_simp+
  show ?thesis using r n v enter_index_in_bounds [OF r n] by simp
qed

text \<open>
  C1, as the code has it. The up and down keys move the selection exactly when the result
  list is non-empty and the search input holds the focus: then the selection moves by
  one, clamped to the list, and a selection inside the list stays inside it; otherwise
  the key changes nothing. Either way the handler returns at once: it starts no task
  and calls nothing remote.
\<close>

theorem on_key_navigation:
  assumes "key = ''down'' \<or> key = ''up''"
  shows "(has_focus s \<and> results s \<noteq> [] \<longrightarrow>
            selected_index (snd (on_key mk sp key s)) =
              (if key = ''down''
               then min (selected_index s + 1) (int (length (results s)) - 1)
               else max (selected_index s - 1) 0) \<and>
            (0 \<le> selected_index s \<and> selected_index s \<le> int (length (results s)) - 1 \<longrightarrow>
               0 \<le> selected_index (snd (on_key mk sp key s)) \<and>
               selected_index (snd (on_key mk sp key s)) \<le> int (length (results s)) - 1)) \<and>
         (\<not> (has_focus s \<and> results s \<noteq> []) \<longrightarrow> on_key mk sp key s = (Inr (), s)) \<and>
         results (snd (on_key mk sp key s)) = results s \<and>
         tasks (snd (on_key mk sp key s)) = tasks s \<and>
         calls (snd (on_key mk sp key s)) = calls s"
proof -
  have idx: "has_focus s \<and> results s \<noteq> [] \<Longrightarrow>
        selected_index (snd (on_key mk sp key s)) =
          (if key = ''down''
           then min (selected_index s + 1) (int (length (results s)) - 1)
           else max (selected_index s - 1) 0)"
    using assms by (auto simp: on_key_selected_index)
  have off: "\<not> (has_focus s \<and> results s \<noteq> []) \<Longrightarrow> on_key mk sp key s = (Inr (), s)"
    using assms by (elim disjE; simp add: on_key_def act_defs)
  have frame: "tasks (snd (on_key mk sp key s)) = tasks s" "calls (snd (on_key mk sp key s)) = calls s"
    using assms by (elim disjE; simp add: on_key_def act_defs split: sum.splits)+
  from idx off frame show ?thesis
    by (auto simp: on_key_frame)
qed

theorem on_key_navigation_witness:
  "has_focus (listed no_markup sp_demo True) \<and> results (listed no_markup sp_demo True) \<noteq> [] \<and>
   selected_index (listed no_markup sp_demo True) = 0 \<and>
   selected_index (snd (on_key no_markup sp_demo ''down'' (listed no_markup sp_demo True))) = 1"
proof -
  have k: "''down'' = ''down'' \<or> ''down'' = ''up''" by simp
  have f: "has_focus (listed no_markup sp_demo True)" "results (listed no_markup sp_demo True) \<noteq> []"
    "selected_index (listed no_markup sp_demo True) = 0" "length (results (listed no_markup sp_demo True)) = 2"
    by code_simp+
  show ?thesis
    using f on_key_navigation [OF k, where s = "listed no_markup sp_demo True"
        and mk = no_markup and sp = sp_demo]
    by simp
qed

text \<open>
  C1 as stated fails: with a non-empty list and the search input out of focus, down
  leaves the selection where it is; with the input in focus it moves it.
\<close>

theorem on_key_navigation_counterexample:
  "results (listed no_markup sp_demo False) \<noteq> [] \<and> \<not> has_focus (listed no_markup sp_demo False) \<and>
   selected_index (listed no_markup sp_demo False) = 0 \<and>
   selected_index (snd (on_key no_markup sp_demo ''down'' (listed no_markup sp_demo False))) = 0 \<and>
   has_focus (listed no_markup sp_demo True) \<and>
   selected_index (listed no_markup sp_demo True) = 0 \<and>
   selected_index (snd (on_key no_markup sp_demo ''down'' (listed no_markup sp_demo True))) = 1"
  by code_simp

text \<open>
  C3, as the code has it. After every step from a reachable state the selection lies in
  the result list when the list is non-empty. Storing a non-empty list resets the
  selection to 0; storing the empty list (a blank query, or a search that found
  nothing) leaves the selection as it was.
\<close>

theorem selection_after_step:
  assumes "reachable mk sp s"
  shows "(results (step mk sp s ev) \<noteq> [] \<longrightarrow>
            0 \<le> selected_index (step mk sp s ev) \<and>
            selected_index (step mk sp s ev) \<le> int (length (results (step mk sp s ev))) - 1) \<and>
         (results (step mk sp s ev) \<noteq> results s \<longrightarrow>
            selected_index (step mk sp s ev) =
              (if results (step mk sp s ev) = [] then selected_index s else 0)) \<and>
         (\<forall>q found s0.
            results (snd (apply_results mk q found s0)) = found \<and>
            selected_index (snd (apply_results mk q found s0)) =
              (if found = [] then selected_index s0 else 0)) \<and>
         (\<forall>v s0. strip v = [] \<longrightarrow>
            results (snd (on_input_changed mk v s0)) = [] \<and>
            selected_index (snd (on_input_changed mk v s0)) = selected_index s0)"
proof -
  from sel_ok_step [OF reachable_sel_ok [OF assms], of mk sp ev]
  have a: "results (step mk sp s ev) \<noteq> [] \<longrightarrow>
            0 \<le> selected_index (step mk sp s ev) \<and>
            selected_index (step mk sp s ev) \<le> int (length (results (step mk sp s ev))) - 1"
    by (simp add: sel_ok_def)
  have blank: "strip v = [] \<Longrightarrow>
      results (snd (on_input_changed mk v s0)) = [] \<and>
      selected_index (snd (on_input_changed mk v s0)) = selected_index s0" for v s0
    by (simp add: on_input_changed_blank set_stage_simps split: option.splits)
  have nonblank: "strip v \<noteq> [] \<Longrightarrow> results (snd (on_input_changed mk v s0)) = results s0" for v s0
    by (simp add: on_input_changed_text Let_def set_stage_simps split: option.splits)
  have b: "results (step mk sp s ev) \<noteq> results s \<longrightarrow>
            selected_index (step mk sp s ev) =
              (if results (step mk sp s ev) = [] then selected_index s else 0)"
  proof (cases ev)
    case (InputChanged v)
    then show ?thesis using blank [of v s] nonblank [of v s] by (cases "strip v = []") auto
  next
    case (Key k)
    then show ?thesis by (simp add: on_key_frame)
  next
    case FocusSearch
    then show ?thesis by (simp add: action_focus_search_def assign_def)
  next
    case BlurSearch
    then show ?thesis by (simp add: action_blur_search_def assign_def)
  next
    case (Resume i)
    from resume_shape [of mk sp i s] show ?thesis
    proof (elim disjE exE)
      fix a st
      assume "resume mk sp i s = set_stage i st (snd (handle_playback_start mk sp a s))"
      moreover have "results (snd (handle_playback_start mk sp a s)) = results s"
        using handle_playback_start_same [of s mk sp a] unfolding same_search_def by blast
      ultimately show ?thesis using Resume by (simp add: set_stage_simps)
    next
      assume "resume mk sp i s = set_stage i Finished (snd (handle_playback_resume mk sp s))"
      moreover have "results (snd (handle_playback_resume mk sp s)) = results s"
        using handle_playback_resume_same [of s mk sp] unfolding same_search_def by blast
      ultimately show ?thesis using Resume by (simp add: set_stage_simps)
    next
      fix q found
      assume "resume mk sp i s = set_stage i Finished (snd (apply_results mk q found s))"
      then show ?thesis using Resume
        by (simp add: set_stage_simps apply_results_frame)
    next
      fix q r
      assume "resume mk sp i s =
        set_stage i InExecutor (set_future i r (snd (search_spotify sp Executor q s)))"
      then show ?thesis using Resume
        by (simp add: set_stage_simps set_future_simps search_spotify_frame)
    qed (use Resume in \<open>auto simp: set_stage_simps\<close>)
  qed
  from a b blank show ?thesis by (simp add: apply_results_frame)
qed

theorem selection_after_step_witness:
  "reachable no_markup sp_demo (mounted no_markup sp_demo True) \<and>
   results (run no_markup sp_demo (mounted no_markup sp_demo True) [InputChanged ''a'', Resume 0, Resume 0]) = [] \<and>
   results (listed no_markup sp_demo True) = [demo_t1, demo_t2] \<and>
   selected_index (listed no_markup sp_demo True) = 0 \<and>
   strip ''  '' = [] \<and>
   results (snd (on_input_changed no_markup ''  '' (listed no_markup sp_demo True))) = []"
proof -
  have r: "reachable no_markup sp_demo (run no_markup sp_demo (mounted no_markup sp_demo True)
             [InputChanged ''a'', Resume 0, Resume 0])"
    by (rule reachable_run) (rule reach_mounted)
  have e: "listed no_markup sp_demo True =
        step no_markup sp_demo (run no_markup sp_demo (mounted no_markup sp_demo True) [InputChanged ''a'', Resume 0, Resume 0])
          (Resume 0)"
    by (simp add: listed_def run_def)
  have v: "results (run no_markup sp_demo (mounted no_markup sp_demo True) [InputChanged ''a'', Resume 0, Resume 0]) = []"
    "results (listed no_markup sp_demo True) = [demo_t1, demo_t2]" "strip ''  '' = []"
    by code_simp+
  show ?thesis
    using v reach_mounted [of no_markup sp_demo True]
      selection_after_step [OF r, of "Resume 0", folded e]
    by simp
qed

text \<open>
  C3 as stated fails: with the second of two results selected, a blank query empties the
  list and the selection stays 1.
\<close>

theorem selection_after_step_counterexample:
  "results (run no_markup sp_demo (listed no_markup sp_demo True) [Key ''down'']) \<noteq> [] \<and>
   selected_index (run no_markup sp_demo (listed no_markup sp_demo True) [Key ''down'']) = 1 \<and>
   results (run no_markup sp_demo (listed no_markup sp_demo True) [Key ''down'', InputChanged ''  '']) = [] \<and>
   selected_index (run no_markup sp_demo (listed no_markup sp_demo True) [Key ''down'', InputChanged ''  '']) = 1"
  by code_simp

subsection \<open>Search tasks and query changes\<close>

lemma on_input_changed_tasks:
  assumes ok: "search_ok s" and i: "i < length (tasks s)"
    and a: "is_search (tasks (snd (on_input_changed mk v s)) ! i)"
  shows "\<not> pending (tasks (snd (on_input_changed mk v s)) ! i)"
proof -
  define s1 where "s1 = (case search_task s of
                    Some i \<Rightarrow> if task_done s i then s\<lparr>query := strip v\<rparr>
                             else set_stage i Cancelled (s\<lparr>query := strip v\<rparr>)
                  | None \<Rightarrow> s\<lparr>query := strip v\<rparr>)"
  note c = cancelled_not_pending [OF ok, where w = "strip v", folded s1_def]
  have "tasks (snd (on_input_changed mk v s)) ! i = tasks s1 ! i"
  proof (cases "strip v = []")
    case True
    then show ?thesis by (simp add: on_input_changed_blank s1_def)
  next
    case False
    then have "tasks (snd (on_input_changed mk v s)) =
        tasks s1 @ [\<lparr>coro_of = DelayedSearch (strip v), stage_of = Scheduled, future_of = Inr []\<rparr>]"
      by (simp add: on_input_changed_text s1_def Let_def)
    with i c(1) show ?thesis by (simp add: nth_append)
  qed
  with a c(4) [OF i] show ?thesis by simp
qed

lemma is_search_update:
  "i < length ts \<Longrightarrow> is_search (ts[j := (ts ! j)\<lparr>stage_of := st\<rparr>] ! i) = is_search (ts ! i)"
  by (cases "i = j") (simp_all add: is_search_def)

lemma on_input_changed_is_search:
  assumes i: "i < length (tasks s)"
  shows "is_search (tasks (snd (on_input_changed mk v s)) ! i) = is_search (tasks s ! i)"
proof -
  define s1 where "s1 = (case search_task s of
                    Some i \<Rightarrow> if task_done s i then s\<lparr>query := strip v\<rparr>
                             else set_stage i Cancelled (s\<lparr>query := strip v\<rparr>)
                  | None \<Rightarrow> s\<lparr>query := strip v\<rparr>)"
  have l: "length (tasks s1) = length (tasks s)"
    by (simp add: s1_def set_stage_def split: option.splits)
  have "is_search (tasks s1 ! i) = is_search (tasks s ! i)"
    using i by (simp add: s1_def set_stage_def is_search_update split: option.splits)
  moreover have "tasks (snd (on_input_changed mk v s)) ! i = tasks s1 ! i"
  proof (cases "strip v = []")
    case True
    then show ?thesis by (simp add: on_input_changed_blank s1_def)
  next
    case False
    then have "tasks (snd (on_input_changed mk v s)) =
        tasks s1 @ [\<lparr>coro_of = DelayedSearch (strip v), stage_of = Scheduled, future_of = Inr []\<rparr>]"
      by (simp add: on_input_changed_text s1_def Let_def)
    with i l show ?thesis by (simp add: nth_append)
  qed
  ultimately show ?thesis by simp
qed

lemma resume_not_pending:
  "\<not> pending (tasks s ! i) \<Longrightarrow> resume mk sp i s = s"
  by (cases "coro_of (tasks s ! i)"; cases "stage_of (tasks s ! i)")
     (simp_all add: resume_def pending_def)

lemma resume_playback_same:
  assumes "coro_of (tasks s ! i) = HandlePlayback a"
  shows "results (resume mk sp i s) = results s \<and> results_box (resume mk sp i s) = results_box s \<and>
         selected_index (resume mk sp i s) = selected_index s"
proof (cases "length (tasks s) \<le> i")
  case True
  then show ?thesis by (simp add: resume_def)
next
  case False
  have st: "results (snd (handle_playback_start mk sp a s)) = results s"
    "results_box (snd (handle_playback_start mk sp a s)) = results_box s"
    "selected_index (snd (handle_playback_start mk sp a s)) = selected_index s"
    using handle_playback_start_same [of s mk sp a] unfolding same_search_def by blast+
  have re: "results (snd (handle_playback_resume mk sp s)) = results s"
    "results_box (snd (handle_playback_resume mk sp s)) = results_box s"
    "selected_index (snd (handle_playback_resume mk sp s)) = selected_index s"
    using handle_playback_resume_same [of s mk sp] unfolding same_search_def by blast+
  show ?thesis
  proof (cases "stage_of (tasks s ! i)")
    case Scheduled
    obtain r s' where rs: "handle_playback_start mk sp a s = (r, s')"
      by (cases "handle_playback_start mk sp a s")
    have "resume mk sp i s = set_stage i Sleeping s' \<or> resume mk sp i s = set_stage i Finished s'"
      using False assms Scheduled rs
      by (auto simp: resume_def split: sum.splits bool.splits)
    with st rs show ?thesis by (auto simp: set_stage_simps)
  next
    case Sleeping
    with False assms re show ?thesis by (simp add: resume_def set_stage_simps)
  qed (use False assms in \<open>simp_all add: resume_def\<close>)
qed

lemma resume_search_waiting:
  assumes "coro_of (tasks s ! i) = DelayedSearch q" and "stage_of (tasks s ! i) \<noteq> InExecutor"
  shows "results (resume mk sp i s) = results s \<and> results_box (resume mk sp i s) = results_box s \<and>
         selected_index (resume mk sp i s) = selected_index s"
  using assms
  by (cases "stage_of (tasks s ! i)")
     (simp_all add: resume_def set_stage_simps set_future_simps search_spotify_frame split_beta)

text \<open>
  C2. In every reachable state a search task that is not done is the one
  \<open>search_task\<close> names, and it searches for the current query: there is at most one,
  and none for an older query. A query change leaves every earlier search task done
  (cancelled, unless it had finished). Resuming a task that is done changes nothing. A
  step of a task that changes the result list, the result widget or the selection is
  the last step of the task \<open>search_task\<close> names, whose query is the current one, and
  the task is finished after it, so it applies once.
\<close>

theorem stale_search_never_applied:
  assumes "reachable mk sp s"
  shows "(\<forall>i<length (tasks s). is_search (tasks s ! i) \<longrightarrow> pending (tasks s ! i) \<longrightarrow>
            search_task s = Some i \<and> coro_of (tasks s ! i) = DelayedSearch (query s)) \<and>
         (\<forall>v. \<forall>i<length (tasks s). is_search (tasks s ! i) \<longrightarrow>
            \<not> pending (tasks (snd (on_input_changed mk v s)) ! i)) \<and>
         (\<forall>i. \<not> pending (tasks s ! i) \<longrightarrow> resume mk sp i s = s) \<and>
         (\<forall>i. results (resume mk sp i s) \<noteq> results s \<or>
              results_box (resume mk sp i s) \<noteq> results_box s \<or>
              selected_index (resume mk sp i s) \<noteq> selected_index s \<longrightarrow>
              i < length (tasks s) \<and> search_task s = Some i \<and>
              coro_of (tasks s ! i) = DelayedSearch (query s) \<and>
              stage_of (tasks s ! i) = InExecutor \<and>
              stage_of (tasks (resume mk sp i s) ! i) = Finished)"
proof -
  note ok = reachable_search_ok [OF assms]
  have one: "\<forall>i<length (tasks s). is_search (tasks s ! i) \<longrightarrow> pending (tasks s ! i) \<longrightarrow>
            search_task s = Some i \<and> coro_of (tasks s ! i) = DelayedSearch (query s)"
    using search_ok_pending [OF ok] by blast
  have two: "\<forall>v. \<forall>i<length (tasks s). is_search (tasks s ! i) \<longrightarrow>
            \<not> pending (tasks (snd (on_input_changed mk v s)) ! i)"
    using on_input_changed_tasks [OF ok] on_input_changed_is_search [of _ s] by blast
  have three: "\<forall>i. \<not> pending (tasks s ! i) \<longrightarrow> resume mk sp i s = s"
    using resume_not_pending by blast
  have four: "i < length (tasks s) \<and> search_task s = Some i \<and>
              coro_of (tasks s ! i) = DelayedSearch (query s) \<and>
              stage_of (tasks s ! i) = InExecutor \<and>
              stage_of (tasks (resume mk sp i s) ! i) = Finished"
    if ch: "results (resume mk sp i s) \<noteq> results s \<or>
              results_box (resume mk sp i s) \<noteq> results_box s \<or>
              selected_index (resume mk sp i s) \<noteq> selected_index s" for i
  proof -
    have i: "i < length (tasks s)"
    proof (rule ccontr)
      assume "\<not> i < length (tasks s)"
      then have "resume mk sp i s = s" by (simp add: resume_def)
      with ch show False by simp
    qed
    obtain q where q: "coro_of (tasks s ! i) = DelayedSearch q"
      using ch resume_playback_same [of s i _ mk sp] by (cases "coro_of (tasks s ! i)") auto
    have e: "stage_of (tasks s ! i) = InExecutor"
      using ch resume_search_waiting [OF q, of mk sp] by blast
    from q have a: "is_search (tasks s ! i)" by (simp add: is_search_def)
    from e have p: "pending (tasks s ! i)" by (simp add: pending_def)
    have "stage_of (tasks (resume mk sp i s) ! i) = Finished"
      using i q e
      by (cases "future_of (tasks s ! i)")
         (simp_all add: resume_def set_stage_def apply_results_frame)
    with i e search_ok_pending [OF ok i a p] show ?thesis by simp
  qed
  from one two three four show ?thesis by blast
qed

theorem stale_search_never_applied_witness:
  "reachable no_markup sp_demo
     (run no_markup sp_demo (mounted no_markup sp_demo True) [InputChanged ''a'', Resume 0, InputChanged ''ab'']) \<and>
   stage_of (tasks (run no_markup sp_demo (mounted no_markup sp_demo True)
     [InputChanged ''a'', Resume 0, InputChanged ''ab'']) ! 0) = Cancelled \<and>
   stage_of (tasks (run no_markup sp_demo (mounted no_markup sp_demo True)
     [InputChanged ''a'', Resume 0, InputChanged ''ab'']) ! 1) = Scheduled \<and>
   search_task (run no_markup sp_demo (mounted no_markup sp_demo True)
     [InputChanged ''a'', Resume 0, InputChanged ''ab'']) = Some 1 \<and>
   resume no_markup sp_demo 0 (run no_markup sp_demo (mounted no_markup sp_demo True)
     [InputChanged ''a'', Resume 0, InputChanged ''ab'']) =
   run no_markup sp_demo (mounted no_markup sp_demo True) [InputChanged ''a'', Resume 0, InputChanged ''ab'']"
proof -
  let ?S = "run no_markup sp_demo (mounted no_markup sp_demo True) [InputChanged ''a'', Resume 0, InputChanged ''ab'']"
  have r: "reachable no_markup sp_demo ?S" by (rule reachable_run) (rule reach_mounted)
  have v: "stage_of (tasks ?S ! 0) = Cancelled" "stage_of (tasks ?S ! 1) = Scheduled"
    "search_task ?S = Some 1"
    by code_simp+
  from v have n: "\<not> pending (tasks ?S ! 0)" by (simp add: pending_def)
  from stale_search_never_applied [OF r]
  have "\<forall>i. \<not> pending (tasks ?S ! i) \<longrightarrow> resume no_markup sp_demo i ?S = ?S" by blast
  with n have "resume no_markup sp_demo 0 ?S = ?S" by blast
  with r v show ?thesis by blast
qed



text \<open>
  C8. A query change whose text is blank after \<open>strip\<close> makes no remote call and
  starts no task; it empties the result list and the query and shows the placeholder.
  The task \<open>search_task\<close> names is done afterwards, and in a reachable state so is
  every search task, so no search is pending. The search worker itself, given a blank
  query, returns the empty list without a remote call.
\<close>

theorem blank_query_clears:
  assumes "strip v = []"
  shows "fst (on_input_changed mk v s) = Inr () \<and>
         results (snd (on_input_changed mk v s)) = [] \<and>
         results_box (snd (on_input_changed mk v s)) = ''Type to search...'' \<and>
         query (snd (on_input_changed mk v s)) = [] \<and>
         calls (snd (on_input_changed mk v s)) = calls s \<and>
         length (tasks (snd (on_input_changed mk v s))) = length (tasks s) \<and>
         (\<forall>i. search_task (snd (on_input_changed mk v s)) = Some i \<longrightarrow> i < length (tasks s) \<longrightarrow>
              \<not> pending (tasks (snd (on_input_changed mk v s)) ! i)) \<and>
         (reachable mk sp s \<longrightarrow>
            (\<forall>i<length (tasks (snd (on_input_changed mk v s))).
               is_search (tasks (snd (on_input_changed mk v s)) ! i) \<longrightarrow>
               \<not> pending (tasks (snd (on_input_changed mk v s)) ! i))) \<and>
         search_spotify sp c v s = (Inr [], s)"
proof -
  have basic: "fst (on_input_changed mk v s) = Inr ()"
    "results (snd (on_input_changed mk v s)) = []"
    "results_box (snd (on_input_changed mk v s)) = ''Type to search...''"
    "query (snd (on_input_changed mk v s)) = []"
    "calls (snd (on_input_changed mk v s)) = calls s"
    "length (tasks (snd (on_input_changed mk v s))) = length (tasks s)"
    using assms
    by (simp_all add: on_input_changed_blank set_stage_def split: option.splits)
  have named: "\<not> pending (tasks (snd (on_input_changed mk v s)) ! i)"
    if "search_task (snd (on_input_changed mk v s)) = Some i" and "i < length (tasks s)" for i
    using that assms
    by (cases "search_task s"; cases "task_done s i")
       (auto simp: on_input_changed_blank set_stage_def pending_def task_done_def)
  have every: "\<not> pending (tasks (snd (on_input_changed mk v s)) ! i)"
    if "reachable mk sp s" and "i < length (tasks (snd (on_input_changed mk v s)))"
      and "is_search (tasks (snd (on_input_changed mk v s)) ! i)" for i
    using that on_input_changed_tasks [OF reachable_search_ok, of mk sp s i mk v]
    by (simp add: basic)
  have worker: "search_spotify sp c v s = (Inr [], s)"
    using assms by (simp add: search_spotify_result)
  from basic named every worker show ?thesis by blast
qed

theorem blank_query_clears_witness:
  "strip ''   '' = [] \<and> results (listed no_markup sp_demo True) \<noteq> [] \<and>
   results (snd (on_input_changed no_markup ''   '' (listed no_markup sp_demo True))) = [] \<and>
   results_box (snd (on_input_changed no_markup ''   '' (listed no_markup sp_demo True))) = ''Type to search...'' \<and>
   calls (snd (on_input_changed no_markup ''   '' (listed no_markup sp_demo True))) = calls (listed no_markup sp_demo True)"
proof -
  have b: "strip ''   '' = []" by code_simp
  have n: "results (listed no_markup sp_demo True) \<noteq> []" by code_simp
  show ?thesis
    using b n
      blank_query_clears [OF b, where mk = no_markup and s = "listed no_markup sp_demo True"
        and sp = sp_demo and c = Executor]
    by blast
qed

text \<open>
  C10. The search worker returns a list for every query and every remote, and raises
  nothing: the empty list for a blank query, without a remote call, and the empty list
  when the remote call raises. A search that failed and a search that found nothing
  leave the same state, with \<open>No results\<close> shown for a non-empty query.
\<close>

theorem search_spotify_total:
  "(\<exists>found. fst (search_spotify sp c q s) = Inr found) \<and>
   (strip q = [] \<longrightarrow> search_spotify sp c q s = (Inr [], s)) \<and>
   (\<forall>e. search sp (length (calls s)) q = Inl e \<longrightarrow> fst (search_spotify sp c q s) = Inr []) \<and>
   (\<forall>e sp'. search sp (length (calls s)) q = Inl e \<and>
            search sp' (length (calls s)) q = Inr [] \<longrightarrow>
            delayed_search mk sp q s = delayed_search mk sp' q s \<and>
            results (snd (delayed_search mk sp q s)) = [] \<and>
            (q \<noteq> [] \<longrightarrow> results_box (snd (delayed_search mk sp q s)) = ''No results''))"
proof -
  have total: "\<exists>found. fst (search_spotify sp c q s) = Inr found"
    by (cases "search sp (length (calls s)) q") (simp_all add: search_spotify_result)
  have blank: "strip q = [] \<longrightarrow> search_spotify sp c q s = (Inr [], s)"
    by (simp add: search_spotify_result)
  have failed: "search sp (length (calls s)) q = Inl e \<Longrightarrow>
      fst (search_spotify sp c q s) = Inr []" for e
    by (simp add: search_spotify_result)
  have same: "delayed_search mk sp q s = delayed_search mk sp' q s \<and>
      results (snd (delayed_search mk sp q s)) = [] \<and>
      (q \<noteq> [] \<longrightarrow> results_box (snd (delayed_search mk sp q s)) = ''No results'')"
    if "search sp (length (calls s)) q = Inl e" and "search sp' (length (calls s)) q = Inr []"
    for e sp'
    using that
    by (simp add: delayed_search_def bnd_def search_spotify_result apply_results_state
        apply_results_def act_defs)
  from total blank failed same show ?thesis by blast
qed

theorem search_spotify_total_witness:
  "search (sp_fixed (Inr None) (Inr ())\<lparr>search := \<lambda>n q. Inl (OtherException ''timeout'')\<rparr>)
     (length (calls (compose True))) ''queen'' = Inl (OtherException ''timeout'') \<and>
   fst (search_spotify
     (sp_fixed (Inr None) (Inr ())\<lparr>search := \<lambda>n q. Inl (OtherException ''timeout'')\<rparr>)
     Executor ''queen'' (compose True)) = Inr []"
proof -
  let ?sp = "sp_fixed (Inr None) (Inr ())\<lparr>search := \<lambda>n q. Inl (OtherException ''timeout'')\<rparr>"
  have a: "search ?sp (length (calls (compose True))) ''queen'' = Inl (OtherException ''timeout'')"
    by simp
  from search_spotify_total [of ?sp Executor "''queen''" "compose True"]
  have "\<forall>e. search ?sp (length (calls (compose True))) ''queen'' = Inl e \<longrightarrow>
          fst (search_spotify ?sp Executor ''queen'' (compose True)) = Inr []"
    by blast
  with a show ?thesis by blast
qed

subsection \<open>Failures in the playback pipeline\<close>

lemma handle_playback_read_fails:
  assumes "current_playback sp (length (calls s)) = Inl e"
  shows "is_playing (snd (handle_playback mk sp action s)) = is_playing s"
    and "calls (snd (handle_playback mk sp action s)) = calls s @ [(EventLoop, CurrentPlayback)]"
    and "now_playing (snd (handle_playback mk sp action s)) = now_playing (snd (playback_except mk e s))"
  using assms
  by (cases e; simp add: handle_playback_def handle_playback_start_def act_defs
        playback_except_def)+

lemma handle_playback_command_fails:
  assumes "current_playback sp (length (calls s)) = Inr pb"
    and "(action = ''play_pause'' \<and> current_state pb \<and>
            pause_playback sp (Suc (length (calls s))) = Inl e) \<or>
         (action = ''play_pause'' \<and> \<not> current_state pb \<and>
            start_playback sp (Suc (length (calls s))) None = Inl e) \<or>
         (action = ''next'' \<and> next_track sp (Suc (length (calls s))) = Inl e) \<or>
         (action = ''previous'' \<and> previous_track sp (Suc (length (calls s))) = Inl e)"
  shows "is_playing (snd (handle_playback mk sp action s)) = is_playing s"
    and "calls (snd (handle_playback mk sp action s)) =
           calls s @ [(EventLoop, CurrentPlayback),
             (EventLoop,
              if action = ''play_pause''
              then (if current_state pb then PausePlayback else StartPlayback None)
              else if action = ''next'' then NextTrack else PreviousTrack)]"
    and "now_playing (snd (handle_playback mk sp action s)) = now_playing (snd (playback_except mk e s))"
  using assms
  by (elim disjE conjE; cases e;
      simp add: handle_playback_def handle_playback_start_def act_defs playback_except_def)+

lemma on_key_enter_fails:
  assumes "has_focus s" and "results s \<noteq> []"
    and "py_index (results s) (selected_index s) = Inr item"
    and "start_playback sp (length (calls s)) (Some [uri item]) = Inl e"
  shows "calls (snd (on_key mk sp ''enter'' s)) =
           calls s @ [(EventLoop, StartPlayback (Some [uri item]))]"
    and "now_playing (snd (on_key mk sp ''enter'' s)) =
           (case e of SpotifyException st t \<Rightarrow> ''Playback Error'' | _ \<Rightarrow> now_playing s)"
  using assms by (cases e; simp add: on_key_def act_defs)+

text \<open>
  C6. When the read of the playback state fails, or the read goes through and the
  command fails, \<open>handle_playback\<close> leaves \<open>is_playing\<close> as it was, has made
  the read and at most one attempt of the command (no retry), and the status shows
  what the \<open>except\<close> clause writes for that exception (nothing new when the
  exception is not a \<open>SpotifyException\<close>); for status 404 that is the no-device
  message, so play/pause against a remote with no active device leaves
  \<open>is_playing\<close> as it was and shows that message. A failed selection of a track
  leaves \<open>is_playing\<close> as it was after one attempt.
\<close>

theorem failed_command_keeps_is_playing:
  "(\<forall>e. current_playback sp (length (calls s)) = Inl e \<longrightarrow>
       is_playing (snd (handle_playback mk sp action s)) = is_playing s \<and>
       calls (snd (handle_playback mk sp action s)) = calls s @ [(EventLoop, CurrentPlayback)] \<and>
       now_playing (snd (handle_playback mk sp action s)) =
         now_playing (snd (playback_except mk e s))) \<and>
   (\<forall>pb e. current_playback sp (length (calls s)) = Inr pb \<and>
       ((action = ''play_pause'' \<and> current_state pb \<and>
           pause_playback sp (Suc (length (calls s))) = Inl e) \<or>
        (action = ''play_pause'' \<and> \<not> current_state pb \<and>
           start_playback sp (Suc (length (calls s))) None = Inl e) \<or>
        (action = ''next'' \<and> next_track sp (Suc (length (calls s))) = Inl e) \<or>
        (action = ''previous'' \<and> previous_track sp (Suc (length (calls s))) = Inl e)) \<longrightarrow>
       is_playing (snd (handle_playback mk sp action s)) = is_playing s \<and>
       calls (snd (handle_playback mk sp action s)) =
         calls s @ [(EventLoop, CurrentPlayback),
           (EventLoop,
            if action = ''play_pause''
            then (if current_state pb then PausePlayback else StartPlayback None)
            else if action = ''next'' then NextTrack else PreviousTrack)] \<and>
       now_playing (snd (handle_playback mk sp action s)) =
         now_playing (snd (playback_except mk e s))) \<and>
   (\<forall>t. now_playing (snd (playback_except mk (SpotifyException 404 t) s)) =
         ''Error: No active Spotify device found'') \<and>
   (\<forall>item e. has_focus s \<and> results s \<noteq> [] \<and>
       py_index (results s) (selected_index s) = Inr item \<and>
       start_playback sp (length (calls s)) (Some [uri item]) = Inl e \<longrightarrow>
       is_playing (snd (on_key mk sp ''enter'' s)) = is_playing s \<and>
       calls (snd (on_key mk sp ''enter'' s)) =
         calls s @ [(EventLoop, StartPlayback (Some [uri item]))] \<and>
       now_playing (snd (on_key mk sp ''enter'' s)) =
         (case e of SpotifyException st t \<Rightarrow> ''Playback Error'' | _ \<Rightarrow> now_playing s)) \<and>
   (\<forall>t. action = ''play_pause'' \<and>
       (current_playback sp (length (calls s)) = Inl (SpotifyException 404 t) \<or>
        (\<exists>p. current_playback sp (length (calls s)) = Inr (Some p) \<and> pb_is_playing p \<and>
             pause_playback sp (Suc (length (calls s))) = Inl (SpotifyException 404 t)) \<or>
        (\<exists>pb. current_playback sp (length (calls s)) = Inr pb \<and>
              (pb = None \<or> (\<exists>p. pb = Some p \<and> \<not> pb_is_playing p)) \<and>
              start_playback sp (Suc (length (calls s))) None =
                Inl (SpotifyException 404 t))) \<longrightarrow>
       is_playing (snd (handle_playback mk sp action s)) = is_playing s \<and>
       now_playing (snd (handle_playback mk sp action s)) =
         ''Error: No active Spotify device found'')"
proof -
  have a: "\<forall>e. current_playback sp (length (calls s)) = Inl e \<longrightarrow>
       is_playing (snd (handle_playback mk sp action s)) = is_playing s \<and>
       calls (snd (handle_playback mk sp action s)) = calls s @ [(EventLoop, CurrentPlayback)] \<and>
       now_playing (snd (handle_playback mk sp action s)) =
         now_playing (snd (playback_except mk e s))"
    using handle_playback_read_fails [of sp s _ mk action] by blast
  have b: "\<forall>pb e. current_playback sp (length (calls s)) = Inr pb \<and>
       ((action = ''play_pause'' \<and> current_state pb \<and>
           pause_playback sp (Suc (length (calls s))) = Inl e) \<or>
        (action = ''play_pause'' \<and> \<not> current_state pb \<and>
           start_playback sp (Suc (length (calls s))) None = Inl e) \<or>
        (action = ''next'' \<and> next_track sp (Suc (length (calls s))) = Inl e) \<or>
        (action = ''previous'' \<and> previous_track sp (Suc (length (calls s))) = Inl e)) \<longrightarrow>
       is_playing (snd (handle_playback mk sp action s)) = is_playing s \<and>
       calls (snd (handle_playback mk sp action s)) =
         calls s @ [(EventLoop, CurrentPlayback),
           (EventLoop,
            if action = ''play_pause''
            then (if current_state pb then PausePlayback else StartPlayback None)
            else if action = ''next'' then NextTrack else PreviousTrack)] \<and>
       now_playing (snd (handle_playback mk sp action s)) =
         now_playing (snd (playback_except mk e s))"
  proof (intro allI impI, elim conjE)
    fix pb e
    assume r: "current_playback sp (length (calls s)) = Inr pb"
      and c: "(action = ''play_pause'' \<and> current_state pb \<and>
           pause_playback sp (Suc (length (calls s))) = Inl e) \<or>
        (action = ''play_pause'' \<and> \<not> current_state pb \<and>
           start_playback sp (Suc (length (calls s))) None = Inl e) \<or>
        (action = ''next'' \<and> next_track sp (Suc (length (calls s))) = Inl e) \<or>
        (action = ''previous'' \<and> previous_track sp (Suc (length (calls s))) = Inl e)"
    from handle_playback_command_fails [OF r c]
    show "is_playing (snd (handle_playback mk sp action s)) = is_playing s \<and>
       calls (snd (handle_playback mk sp action s)) =
         calls s @ [(EventLoop, CurrentPlayback),
           (EventLoop,
            if action = ''play_pause''
            then (if current_state pb then PausePlayback else StartPlayback None)
            else if action = ''next'' then NextTrack else PreviousTrack)] \<and>
       now_playing (snd (handle_playback mk sp action s)) =
         now_playing (snd (playback_except mk e s))"
      by (intro conjI)
  qed
  have c: "\<forall>t. now_playing (snd (playback_except mk (SpotifyException 404 t) s)) =
         ''Error: No active Spotify device found''"
    by (simp add: playback_except_def act_defs)
  have d: "\<forall>item e. has_focus s \<and> results s \<noteq> [] \<and>
       py_index (results s) (selected_index s) = Inr item \<and>
       start_playback sp (length (calls s)) (Some [uri item]) = Inl e \<longrightarrow>
       is_playing (snd (on_key mk sp ''enter'' s)) = is_playing s \<and>
       calls (snd (on_key mk sp ''enter'' s)) =
         calls s @ [(EventLoop, StartPlayback (Some [uri item]))] \<and>
       now_playing (snd (on_key mk sp ''enter'' s)) =
         (case e of SpotifyException st t \<Rightarrow> ''Playback Error'' | _ \<Rightarrow> now_playing s)"
    using on_key_enter_fails [where s = s and sp = sp and mk = mk]
      on_key_frame(4) [of mk sp "''enter''" s]
    by blast
  have e: "\<forall>t. action = ''play_pause'' \<and>
       (current_playback sp (length (calls s)) = Inl (SpotifyException 404 t) \<or>
        (\<exists>p. current_playback sp (length (calls s)) = Inr (Some p) \<and> pb_is_playing p \<and>
             pause_playback sp (Suc (length (calls s))) = Inl (SpotifyException 404 t)) \<or>
        (\<exists>pb. current_playback sp (length (calls s)) = Inr pb \<and>
              (pb = None \<or> (\<exists>p. pb = Some p \<and> \<not> pb_is_playing p)) \<and>
              start_playback sp (Suc (length (calls s))) None =
                Inl (SpotifyException 404 t))) \<longrightarrow>
       is_playing (snd (handle_playback mk sp action s)) = is_playing s \<and>
       now_playing (snd (handle_playback mk sp action s)) =
         ''Error: No active Spotify device found''"
  proof (intro allI impI, elim conjE disjE exE)
    fix t
    assume "current_playback sp (length (calls s)) = Inl (SpotifyException 404 t)"
    from handle_playback_read_fails [OF this, of mk action] c
    show "is_playing (snd (handle_playback mk sp action s)) = is_playing s \<and>
       now_playing (snd (handle_playback mk sp action s)) =
         ''Error: No active Spotify device found''"
      by simp
  next
    fix t p
    assume act: "action = ''play_pause''"
      and r: "current_playback sp (length (calls s)) = Inr (Some p)"
      and p: "pb_is_playing p"
      and f: "pause_playback sp (Suc (length (calls s))) = Inl (SpotifyException 404 t)"
    from act p f have "(action = ''play_pause'' \<and> current_state (Some p) \<and>
            pause_playback sp (Suc (length (calls s))) = Inl (SpotifyException 404 t)) \<or>
         (action = ''play_pause'' \<and> \<not> current_state (Some p) \<and>
            start_playback sp (Suc (length (calls s))) None = Inl (SpotifyException 404 t)) \<or>
         (action = ''next'' \<and> next_track sp (Suc (length (calls s))) =
            Inl (SpotifyException 404 t)) \<or>
         (action = ''previous'' \<and> previous_track sp (Suc (length (calls s))) =
            Inl (SpotifyException 404 t))"
      by (simp add: current_state_def)
    from handle_playback_command_fails [OF r this, of mk] c
    show "is_playing (snd (handle_playback mk sp action s)) = is_playing s \<and>
       now_playing (snd (handle_playback mk sp action s)) =
         ''Error: No active Spotify device found''"
      by simp
  next
    fix t pb
    assume act: "action = ''play_pause''"
      and r: "current_playback sp (length (calls s)) = Inr pb"
      and p: "pb = None"
      and f: "start_playback sp (Suc (length (calls s))) None = Inl (SpotifyException 404 t)"
    from p have "\<not> current_state pb" by (simp add: current_state_def)
    with act f have "(action = ''play_pause'' \<and> current_state pb \<and>
            pause_playback sp (Suc (length (calls s))) = Inl (SpotifyException 404 t)) \<or>
         (action = ''play_pause'' \<and> \<not> current_state pb \<and>
            start_playback sp (Suc (length (calls s))) None = Inl (SpotifyException 404 t)) \<or>
         (action = ''next'' \<and> next_track sp (Suc (length (calls s))) =
            Inl (SpotifyException 404 t)) \<or>
         (action = ''previous'' \<and> previous_track sp (Suc (length (calls s))) =
            Inl (SpotifyException 404 t))"
      by simp
    from handle_playback_command_fails [OF r this, of mk] c
    show "is_playing (snd (handle_playback mk sp action s)) = is_playing s \<and>
       now_playing (snd (handle_playback mk sp action s)) =
         ''Error: No active Spotify device found''"
      by simp
  next
    fix t pb p
    assume act: "action = ''play_pause''"
      and r: "current_playback sp (length (calls s)) = Inr pb"
      and p: "pb = Some p" "\<not> pb_is_playing p"
      and f: "start_playback sp (Suc (length (calls s))) None = Inl (SpotifyException 404 t)"
    from p have "\<not> current_state pb" by (simp add: current_state_def)
    with act f have "(action = ''play_pause'' \<and> current_state pb \<and>
            pause_playback sp (Suc (length (calls s))) = Inl (SpotifyException 404 t)) \<or>
         (action = ''play_pause'' \<and> \<not> current_state pb \<and>
            start_playback sp (Suc (length (calls s))) None = Inl (SpotifyException 404 t)) \<or>
         (action = ''next'' \<and> next_track sp (Suc (length (calls s))) =
            Inl (SpotifyException 404 t)) \<or>
         (action = ''previous'' \<and> previous_track sp (Suc (length (calls s))) =
            Inl (SpotifyException 404 t))"
      by simp
    from handle_playback_command_fails [OF r this, of mk] c
    show "is_playing (snd (handle_playback mk sp action s)) = is_playing s \<and>
       now_playing (snd (handle_playback mk sp action s)) =
         ''Error: No active Spotify device found''"
      by simp
  qed
  from a b c d e show ?thesis by (intro conjI)
qed

theorem failed_command_keeps_is_playing_witness:
  "current_playback (sp_failing (SpotifyException 404 ''no device''))
     (length (calls (mounted no_markup (sp_failing (SpotifyException 404 ''no device'')) False))) =
     Inl (SpotifyException 404 ''no device'') \<and>
   is_playing (snd (handle_playback no_markup (sp_failing (SpotifyException 404 ''no device''))
      ''play_pause'' (mounted no_markup (sp_failing (SpotifyException 404 ''no device'')) False))) =
     is_playing (mounted no_markup (sp_failing (SpotifyException 404 ''no device'')) False) \<and>
   now_playing (snd (handle_playback no_markup (sp_failing (SpotifyException 404 ''no device''))
      ''play_pause'' (mounted no_markup (sp_failing (SpotifyException 404 ''no device'')) False))) =
     ''Error: No active Spotify device found''"
proof -
  let ?sp = "sp_failing (SpotifyException 404 ''no device'')"
  have a: "current_playback ?sp (length (calls (mounted no_markup ?sp False))) =
           Inl (SpotifyException 404 ''no device'')"
    by (simp add: sp_failing_def sp_fixed_def)
  note t = failed_command_keeps_is_playing [where sp = ?sp and s = "mounted no_markup ?sp False"
      and action = "''play_pause''" and mk = no_markup]
  note r = t [THEN conjunct1, rule_format, OF a]
  note n = t [THEN conjunct2, THEN conjunct2, THEN conjunct1, rule_format, of "''no device''"]
  note p = r [THEN conjunct1]
  note q = r [THEN conjunct2, THEN conjunct2]
  from q n have
    "now_playing (snd (handle_playback no_markup ?sp ''play_pause'' (mounted no_markup ?sp False))) =
       ''Error: No active Spotify device found''"
    by (rule trans)
  with a p show ?thesis by (intro conjI)
qed

text \<open>
  C4 on the code. The user searches, then presses space, n and (with the focus back
  in the search input) enter. Of the remote calls made, only the search runs in the
  executor; the reads of the playback state and the playback commands are direct calls
  in a coroutine of the event loop.
\<close>

theorem playback_calls_on_event_loop:
  "calls (run no_markup sp_demo (listed no_markup sp_demo False)
     [Key ''space'', Resume 1, Key ''n'', Resume 2, Resume 2, FocusSearch, Key ''enter'']) =
   [(EventLoop, CurrentPlayback), (Executor, Search ''a''),
    (EventLoop, CurrentPlayback), (EventLoop, StartPlayback None),
    (EventLoop, CurrentPlayback), (EventLoop, NextTrack), (EventLoop, CurrentPlayback),
    (EventLoop, StartPlayback (Some [''spotify:track:1'']))]"
  by code_simp

text \<open>
  C5 on the code. Selecting a track while the remote reports no active device (status
  404) shows \<open>Playback Error\<close>, the same text as for any other
  \<open>SpotifyException\<close> and without its reason, where play/pause in the same
  situation shows the no-device message. An exception that is not a
  \<open>SpotifyException\<close> leaves both handlers uncaught.
\<close>

theorem select_track_error_message:
  "now_playing (snd (on_key no_markup (sp_failing (SpotifyException 404 ''no device'')) ''enter''
     (listed no_markup (sp_failing (SpotifyException 404 ''no device'')) True))) = ''Playback Error'' \<and>
   now_playing (snd (on_key no_markup (sp_failing (SpotifyException 500 ''server error'')) ''enter''
     (listed no_markup (sp_failing (SpotifyException 500 ''server error'')) True))) = ''Playback Error'' \<and>
   now_playing (snd (handle_playback no_markup (sp_failing (SpotifyException 404 ''no device''))
     ''play_pause'' (listed no_markup (sp_failing (SpotifyException 404 ''no device'')) False))) =
     ''Error: No active Spotify device found'' \<and>
   now_playing (snd (handle_playback no_markup (sp_failing (SpotifyException 500 ''server error''))
     ''play_pause'' (listed no_markup (sp_failing (SpotifyException 500 ''server error'')) False))) =
     ''Playback Error: server error'' \<and>
   fst (on_key no_markup (sp_failing (OtherException ''timed out'')) ''enter''
     (listed no_markup (sp_failing (OtherException ''timed out'')) True)) =
     Inl (OtherException ''timed out'') \<and>
   fst (handle_playback no_markup (sp_failing (OtherException ''timed out'')) ''play_pause''
     (listed no_markup (sp_failing (OtherException ''timed out'')) False)) =
     Inl (OtherException ''timed out'')"
  by code_simp

end
